theory Spec2Isabelle
  imports Main
begin

section \<open>FastAPI Users database adapter for SQLAlchemy\<close>

text \<open>
  The adapter of \<^verbatim>\<open>fastapi_users_db_sqlalchemy/__init__.py\<close> is a sequence of calls on a
  SQLAlchemy session. The development has three layers:
  \<^item> the table declarations of the source, as lists of column records;
  \<^item> the session the adapter is handed: the rows of the two tables, the instances of the
    mapped classes (a heap, an instance is referred to by its index), the unit of work,
    and a log of the calls the session has received;
  \<^item> the methods of \<^verbatim>\<open>SQLAlchemyUserDatabase\<close>, call by call.
  Python raises are values: every method returns \<open>Inl\<close> of an error or \<open>Inr\<close> of its
  result, together with the state it leaves behind.
\<close>

subsection \<open>Values and errors\<close>

text \<open>
  \<^verbatim>\<open>Dict[str, Any]\<close>: the values a column of the two tables can hold, and \<^verbatim>\<open>None\<close>.
  The identifier type \<^verbatim>\<open>ID\<close> is the type parameter \<open>'id\<close>.
\<close>

datatype 'id val = VNone | VStr string | VBool bool | VInt int | VId 'id

datatype error =
    NotImplementedError
  | TypeError
  | AttributeError
  | IndexError
  | ProgrammingError
  | DataError
  | IntegrityError
  | StaleDataError
  | InvalidRequestError
  | PendingRollbackError

subsection \<open>Table declarations\<close>

datatype table = User | OAuthAccount

datatype sql_type = String nat | Boolean | Integer | GUID

text \<open>The \<^verbatim>\<open>default\<close> of a column: a constant (the source has \<^verbatim>\<open>True\<close> and \<^verbatim>\<open>False\<close>) or the
  callable \<^verbatim>\<open>uuid.uuid4\<close>.\<close>

datatype default_arg = Scalar bool | Uuid4

text \<open>\<^verbatim>\<open>ForeignKey("user.id", ondelete="cascade")\<close>: the table and column referred to, and
  the action on delete.\<close>

datatype foreign_key = ForeignKey table string string

record column =
  name :: string
  col_type :: sql_type
  primary_key :: bool
  unique :: bool
  index :: bool
  nullable :: bool
  col_default :: "default_arg option"
  foreign_key :: "foreign_key option"

text \<open>\<^verbatim>\<open>Column(type, ...)\<close> with SQLAlchemy's values for the keywords left out. In a
  declarative class the column takes the name of the attribute it is assigned to.\<close>

definition Column :: "string \<Rightarrow> sql_type \<Rightarrow> column" where
  "Column n t =
     \<lparr>name = n, col_type = t, primary_key = False, unique = False, index = False,
      nullable = True, col_default = None, foreign_key = None\<rparr>"

definition SQLAlchemyBaseUserTable :: "column list" where
  "SQLAlchemyBaseUserTable =
     [(Column ''email'' (String 320))\<lparr>unique := True, index := True, nullable := False\<rparr>,
      (Column ''hashed_password'' (String 1024))\<lparr>nullable := False\<rparr>,
      (Column ''is_active'' Boolean)\<lparr>col_default := Some (Scalar True), nullable := False\<rparr>,
      (Column ''is_superuser'' Boolean)\<lparr>col_default := Some (Scalar False), nullable := False\<rparr>,
      (Column ''is_verified'' Boolean)\<lparr>col_default := Some (Scalar False), nullable := False\<rparr>]"

definition SQLAlchemyBaseUserTableUUID :: "column list" where
  "SQLAlchemyBaseUserTableUUID =
     (Column ''id'' GUID)\<lparr>primary_key := True, col_default := Some Uuid4\<rparr>
       # SQLAlchemyBaseUserTable"

definition SQLAlchemyBaseOAuthAccountTable :: "column list" where
  "SQLAlchemyBaseOAuthAccountTable =
     [(Column ''oauth_name'' (String 100))\<lparr>index := True, nullable := False\<rparr>,
      (Column ''access_token'' (String 1024))\<lparr>nullable := False\<rparr>,
      (Column ''expires_at'' Integer)\<lparr>nullable := True\<rparr>,
      (Column ''refresh_token'' (String 1024))\<lparr>nullable := True\<rparr>,
      (Column ''account_id'' (String 320))\<lparr>index := True, nullable := False\<rparr>,
      (Column ''account_email'' (String 320))\<lparr>nullable := False\<rparr>]"

definition SQLAlchemyBaseOAuthAccountTableUUID :: "column list" where
  "SQLAlchemyBaseOAuthAccountTableUUID =
     (Column ''id'' GUID)\<lparr>primary_key := True, col_default := Some Uuid4\<rparr>
       # (Column ''user_id'' GUID)
           \<lparr>foreign_key := Some (ForeignKey User ''id'' ''cascade''), nullable := False\<rparr>
       # SQLAlchemyBaseOAuthAccountTable"

fun columns :: "table \<Rightarrow> column list" where
  "columns User = SQLAlchemyBaseUserTableUUID"
| "columns OAuthAccount = SQLAlchemyBaseOAuthAccountTableUUID"

definition column_names :: "table \<Rightarrow> string list" where
  "column_names t = map name (columns t)"

text \<open>A mapped class handed to the adapter: its table, and the names of the attributes
  of the class that are not columns (\<^verbatim>\<open>__tablename__\<close>, a relationship such as
  \<^verbatim>\<open>oauth_accounts\<close>, whatever the application's class adds).\<close>

record mapped_class =
  mapped_table :: table
  class_attrs :: "string list"

definition hasattr :: "mapped_class \<Rightarrow> string \<Rightarrow> bool" where
  "hasattr c k \<longleftrightarrow> k \<in> set (column_names (mapped_table c)) \<or> k \<in> set (class_attrs c)"

subsection \<open>The state: rows, instances, unit of work\<close>

type_synonym 'id row = "string \<rightharpoonup> 'id val"

text \<open>An instance of a mapped class: its attributes, and the identity key the session
  gives a persistent instance (the primary key of its row); a transient instance has
  none.\<close>

record 'id entity =
  cls :: table
  attrs :: "string \<rightharpoonup> 'id val"
  key :: "'id val option"

text \<open>
  The state the methods run in: the rows of the two tables (\<open>db\<close>, in the order they
  were inserted), the instances of the mapped classes (\<open>instances\<close>; a method is handed
  and returns indices into this list, as Python hands references), the unit of work of
  the session (\<open>added\<close>, \<open>deleted\<close>), the values \<^verbatim>\<open>uuid.uuid4\<close> returns call after call
  (\<open>uuid4\<close>, \<open>uuid4_calls\<close>), and the calls the session has received (\<open>calls\<close>).
  \<open>db\<close> holds the rows as the transaction of the session sees them. \<open>failed\<close> says
  that a flush has failed: the transaction is rolled back, and the session refuses every
  later call that needs it until \<^verbatim>\<open>rollback()\<close> is called, which the adapter never does.
  Two things belong to the store and are not fixed by the source: the order in which a
  SELECT without ORDER BY returns its rows (\<open>row_order\<close>: by how many places the result of
  the statement executed after so many calls is rotated) and its \<^verbatim>\<open>LOWER\<close> function
  (\<open>sql_lower\<close>).
\<close>

datatype session_call = Execute | Add | Commit | Refresh | Delete

record 'id state =
  db :: "table \<Rightarrow> 'id row list"
  instances :: "'id entity list"
  added :: "nat list"
  deleted :: "nat list"
  uuid4 :: "nat \<Rightarrow> 'id"
  uuid4_calls :: nat
  calls :: "session_call list"
  failed :: bool
  row_order :: "nat \<Rightarrow> nat"
  sql_lower :: "string \<Rightarrow> string"

definition init :: "(nat \<Rightarrow> 'id) \<Rightarrow> (nat \<Rightarrow> nat) \<Rightarrow> (string \<Rightarrow> string) \<Rightarrow> 'id state" where
  "init u ord lw = \<lparr>db = (\<lambda>t. []), instances = [], added = [], deleted = [],
             uuid4 = u, uuid4_calls = 0, calls = [], failed = False,
             row_order = ord, sql_lower = lw\<rparr>"

subsection \<open>What the declared schema demands of the rows\<close>

text \<open>
  The store holds the rows to the declarations of the source: a value has the type of
  its column (a string is no longer than the declared length); a column declared
  \<^verbatim>\<open>nullable=False\<close> or \<^verbatim>\<open>primary_key=True\<close> holds no NULL; a column declared
  \<^verbatim>\<open>unique=True\<close> or \<^verbatim>\<open>primary_key=True\<close> holds no value twice; a foreign key refers to
  a row of the table it names. Values are compared as they are: two strings that differ
  in case are two values, which is why \<^verbatim>\<open>get_by_email\<close> lower-cases both sides.
  The store of the model is a strict one. A store may accept more (SQLite keeps a string
  longer than the declared length and takes 1 for \<^verbatim>\<open>True\<close>); what the strict store accepts
  every store accepts and gives back unchanged, and the properties below that suppose a
  call succeeded are about such values. An integer is one the driver can pass on (64
  bits).
\<close>

fun fits :: "sql_type \<Rightarrow> 'id val \<Rightarrow> bool" where
  "fits (String n) (VStr s) = (length s \<le> n)"
| "fits Boolean (VBool b) = True"
| "fits Integer (VInt i) = (- (2 ^ 63) \<le> i \<and> i < 2 ^ 63)"
| "fits GUID (VId u) = True"
| "fits t v = False"

definition typed_ok :: "column \<Rightarrow> 'id val option \<Rightarrow> bool" where
  "typed_ok c v = (case v of None \<Rightarrow> False | Some VNone \<Rightarrow> True | Some x \<Rightarrow> fits (col_type c) x)"

definition not_null :: "column \<Rightarrow> bool" where
  "not_null c \<longleftrightarrow> primary_key c \<or> \<not> nullable c"

definition is_unique :: "column \<Rightarrow> bool" where
  "is_unique c \<longleftrightarrow> primary_key c \<or> unique c"

definition table_typed :: "table \<Rightarrow> 'id row list \<Rightarrow> bool" where
  "table_typed t rows \<longleftrightarrow> (\<forall>r \<in> set rows. \<forall>c \<in> set (columns t). typed_ok c (r (name c)))"

definition not_null_ok :: "table \<Rightarrow> 'id row list \<Rightarrow> bool" where
  "not_null_ok t rows \<longleftrightarrow>
     (\<forall>r \<in> set rows. \<forall>c \<in> set (columns t).
        not_null c \<longrightarrow> r (name c) \<noteq> Some VNone)"

definition unique_ok :: "table \<Rightarrow> 'id row list \<Rightarrow> bool" where
  "unique_ok t rows \<longleftrightarrow>
     (\<forall>c \<in> set (columns t).
        is_unique c \<longrightarrow> distinct (filter (\<lambda>v. v \<noteq> Some VNone) (map (\<lambda>r. r (name c)) rows)))"

definition references_ok :: "(table \<Rightarrow> 'id row list) \<Rightarrow> table \<Rightarrow> bool" where
  "references_ok d t \<longleftrightarrow>
     (\<forall>c \<in> set (columns t).
        case foreign_key c of
          None \<Rightarrow> True
        | Some (ForeignKey t' c' a) \<Rightarrow>
            (\<forall>r \<in> set (d t). r (name c) = Some VNone \<or> r (name c) \<in> set (map (\<lambda>r'. r' c') (d t'))))"

definition typed :: "(table \<Rightarrow> 'id row list) \<Rightarrow> bool" where
  "typed d \<longleftrightarrow> table_typed User (d User) \<and> table_typed OAuthAccount (d OAuthAccount)"

definition constraints_ok :: "(table \<Rightarrow> 'id row list) \<Rightarrow> bool" where
  "constraints_ok d \<longleftrightarrow>
     not_null_ok User (d User) \<and> not_null_ok OAuthAccount (d OAuthAccount) \<and>
     unique_ok User (d User) \<and> unique_ok OAuthAccount (d OAuthAccount) \<and>
     references_ok d User \<and> references_ok d OAuthAccount"


definition row_ok :: "(table \<Rightarrow> 'id row list) \<Rightarrow> bool" where
  "row_ok d \<longleftrightarrow> typed d \<and> constraints_ok d"

subsection \<open>Select statements\<close>

text \<open>The statements the adapter builds: \<^verbatim>\<open>select(entity)\<close>, an optional \<^verbatim>\<open>join\<close>, and
  \<^verbatim>\<open>where\<close> clauses \<open>a == b\<close> over columns, literals and \<^verbatim>\<open>func.lower\<close>.\<close>

datatype 'id expr = Col table string | Lit "'id val" | Lower "'id expr"

datatype 'id cond = Eq "'id expr" "'id expr"

record 'id select_stmt =
  entity_of :: table
  joined :: "table option"
  whereclause :: "'id cond list"

definition select :: "table \<Rightarrow> 'id select_stmt" where
  "select t = \<lparr>entity_of = t, joined = None, whereclause = []\<rparr>"

definition join :: "'id select_stmt \<Rightarrow> table \<Rightarrow> 'id select_stmt" where
  "join stmt t = stmt\<lparr>joined := Some t\<rparr>"

definition where_clause :: "'id select_stmt \<Rightarrow> 'id cond \<Rightarrow> 'id select_stmt" where
  "where_clause stmt c = stmt\<lparr>whereclause := whereclause stmt @ [c]\<rparr>"

text \<open>\<^verbatim>\<open>LOWER\<close> as every store has it at least: on the letters A to Z, every other
  character left as it is. The concrete runs below use it; the properties are about
  whatever \<open>sql_lower\<close> the state has.\<close>

definition lower_char :: "char \<Rightarrow> char" where
  "lower_char c =
     (let n = (of_char c :: nat) in if 65 \<le> n \<and> n \<le> 90 then char_of (n + 32) else c)"

definition lower :: "string \<Rightarrow> string" where
  "lower s = map lower_char s"

text \<open>A statement the store accepts: the columns exist in the tables selected from, the
  join follows a declared foreign key, and \<^verbatim>\<open>lower\<close> is applied to text.\<close>

fun is_text :: "'id expr \<Rightarrow> bool" where
  "is_text (Col t c) =
     (\<exists>col \<in> set (columns t).
        name col = c \<and> (case col_type col of String n \<Rightarrow> True | _ \<Rightarrow> False))"
| "is_text (Lit v) = (case v of VStr s \<Rightarrow> True | VNone \<Rightarrow> True | _ \<Rightarrow> False)"
| "is_text (Lower e) = is_text e"

fun expr_ok :: "table list \<Rightarrow> 'id expr \<Rightarrow> bool" where
  "expr_ok ts (Col t c) \<longleftrightarrow> t \<in> set ts \<and> c \<in> set (column_names t)"
| "expr_ok ts (Lit v) \<longleftrightarrow> True"
| "expr_ok ts (Lower e) \<longleftrightarrow> expr_ok ts e \<and> is_text e"

fun cond_ok :: "table list \<Rightarrow> 'id cond \<Rightarrow> bool" where
  "cond_ok ts (Eq a b) \<longleftrightarrow> expr_ok ts a \<and> expr_ok ts b"

definition refers :: "table \<Rightarrow> table \<Rightarrow> (string \<times> string) list" where
  "refers t2 t =
     concat (map (\<lambda>c. case foreign_key c of
                        None \<Rightarrow> []
                      | Some (ForeignKey t' c' a) \<Rightarrow> if t' = t then [(name c, c')] else [])
                 (columns t2))"

definition stmt_ok :: "'id select_stmt \<Rightarrow> bool" where
  "stmt_ok stmt \<longleftrightarrow>
     (case joined stmt of
        None \<Rightarrow> list_all (cond_ok [entity_of stmt]) (whereclause stmt)
      | Some t2 \<Rightarrow>
          (refers t2 (entity_of stmt) \<noteq> [] \<or> refers (entity_of stmt) t2 \<noteq> []) \<and>
          list_all (cond_ok [entity_of stmt, t2]) (whereclause stmt))"

text \<open>The ON clause of a join: a foreign key of one table equals the column it refers
  to in the other; NULL joins nothing.\<close>

definition join_on :: "table \<Rightarrow> 'id row \<Rightarrow> table \<Rightarrow> 'id row \<Rightarrow> bool" where
  "join_on t r t2 r2 \<longleftrightarrow>
     list_ex (\<lambda>(c, c'). r2 c \<noteq> None \<and> r2 c \<noteq> Some VNone \<and> r2 c = r c') (refers t2 t) \<or>
     list_ex (\<lambda>(c, c'). r c \<noteq> None \<and> r c \<noteq> Some VNone \<and> r c = r2 c') (refers t t2)"

definition from_rows ::
  "'id select_stmt \<Rightarrow> (table \<Rightarrow> 'id row list) \<Rightarrow> (table \<times> 'id row) list list" where
  "from_rows stmt d =
     (case joined stmt of
        None \<Rightarrow> map (\<lambda>r. [(entity_of stmt, r)]) (d (entity_of stmt))
      | Some t2 \<Rightarrow>
          concat (map (\<lambda>r. map (\<lambda>r2. [(entity_of stmt, r), (t2, r2)])
                                (filter (join_on (entity_of stmt) r t2) (d t2)))
                      (d (entity_of stmt))))"

fun eval_expr :: "(string \<Rightarrow> string) \<Rightarrow> (table \<times> 'id row) list \<Rightarrow> 'id expr \<Rightarrow> 'id val" where
  "eval_expr lw env (Col t c) =
     (case map_of env t of
        None \<Rightarrow> VNone
      | Some r \<Rightarrow> (case r c of None \<Rightarrow> VNone | Some v \<Rightarrow> v))"
| "eval_expr lw env (Lit v) = v"
| "eval_expr lw env (Lower e) =
     (case eval_expr lw env e of VStr s \<Rightarrow> VStr (lw s) | _ \<Rightarrow> VNone)"

text \<open>SQL equality: a comparison with NULL is not true.\<close>

fun holds :: "(string \<Rightarrow> string) \<Rightarrow> (table \<times> 'id row) list \<Rightarrow> 'id cond \<Rightarrow> bool" where
  "holds lw env (Eq a b) \<longleftrightarrow>
     eval_expr lw env a = eval_expr lw env b \<and> eval_expr lw env a \<noteq> VNone"

text \<open>The rows a statement selects, each reduced to the entity of \<^verbatim>\<open>select(entity)\<close>. The
  list is in the order of the tables; the order the store returns it in is decided in
  \<open>session_execute\<close>.\<close>

definition matching ::
  "(string \<Rightarrow> string) \<Rightarrow> 'id select_stmt \<Rightarrow> (table \<Rightarrow> 'id row list)
     \<Rightarrow> (table \<times> 'id row) list list" where
  "matching lw stmt d =
     map (take 1) (filter (\<lambda>env. list_all (holds lw env) (whereclause stmt)) (from_rows stmt d))"

subsection \<open>The session\<close>

text \<open>
  Every session function appends its name to \<open>calls\<close>. Loading a row gives the instance
  the identity map already holds for its primary key, or a new instance; either way the
  column attributes are those of the row. \<^verbatim>\<open>add\<close> and \<^verbatim>\<open>delete\<close> only register an
  instance with the unit of work; \<^verbatim>\<open>execute\<close>, \<^verbatim>\<open>commit\<close> and \<^verbatim>\<open>refresh\<close> need the
  transaction and raise \<^verbatim>\<open>PendingRollbackError\<close> once a flush has failed.
\<close>

definition load_columns :: "table \<Rightarrow> 'id row \<Rightarrow> (string \<rightharpoonup> 'id val) \<Rightarrow> (string \<rightharpoonup> 'id val)" where
  "load_columns t r a = (\<lambda>k. if k \<in> set (column_names t) then r k else a k)"

definition identity_lookup :: "'id entity list \<Rightarrow> table \<Rightarrow> 'id val option \<Rightarrow> nat option" where
  "identity_lookup es t k =
     (if k = None then None
      else find (\<lambda>n. cls (es ! n) = t \<and> key (es ! n) = k) [0..<length es])"

definition load_entity :: "table \<Rightarrow> 'id row \<Rightarrow> 'id state \<Rightarrow> nat \<times> 'id state" where
  "load_entity t r s =
     (case identity_lookup (instances s) t (r ''id'') of
        Some n \<Rightarrow>
          (n, s\<lparr>instances := (instances s)
                  [n := (instances s ! n)\<lparr>attrs := load_columns t r (attrs (instances s ! n))\<rparr>]\<rparr>)
      | None \<Rightarrow>
          (length (instances s),
           s\<lparr>instances := instances s @
                [\<lparr>cls = t, attrs = load_columns t r Map.empty, key = r ''id''\<rparr>]\<rparr>))"

fun load_row :: "(table \<times> 'id row) list \<Rightarrow> 'id state \<Rightarrow> nat list \<times> 'id state" where
  "load_row [] s = ([], s)"
| "load_row ((t, r) # es) s =
     (case load_entity t r s of
        (n, s1) \<Rightarrow> (case load_row es s1 of (ns, s2) \<Rightarrow> (n # ns, s2)))"

definition session_add :: "nat \<Rightarrow> 'id state \<Rightarrow> 'id state" where
  "session_add r s =
     s\<lparr>added := (if r \<in> set (added s) then added s else added s @ [r]),
       calls := calls s @ [Add]\<rparr>"

definition session_delete :: "nat \<Rightarrow> 'id state \<Rightarrow> (error + unit) \<times> 'id state" where
  "session_delete r s =
     (let s1 = s\<lparr>calls := calls s @ [Delete]\<rparr>
      in if r < length (instances s1) \<and> key (instances s1 ! r) \<noteq> None
         then (Inr (), s1\<lparr>deleted := deleted s1 @ [r]\<rparr>)
         else (Inl InvalidRequestError, s1))"

text \<open>The row of a persistent instance, by its identity key.\<close>

definition row_of :: "'id state \<Rightarrow> nat \<Rightarrow> 'id row option" where
  "row_of s r =
     (if r < length (instances s) \<and> key (instances s ! r) \<noteq> None
      then find (\<lambda>row. row ''id'' = key (instances s ! r)) (db s (cls (instances s ! r)))
      else None)"

definition reload :: "nat \<Rightarrow> 'id row \<Rightarrow> 'id state \<Rightarrow> 'id state" where
  "reload r row s =
     s\<lparr>instances := (instances s)
         [r := (instances s ! r)
                 \<lparr>attrs := load_columns (cls (instances s ! r)) row (attrs (instances s ! r))\<rparr>]\<rparr>"

definition session_refresh :: "nat \<Rightarrow> 'id state \<Rightarrow> (error + unit) \<times> 'id state" where
  "session_refresh r s =
     (let s1 = s\<lparr>calls := calls s @ [Refresh]\<rparr>
      in if failed s1 then (Inl PendingRollbackError, s1)
         else case row_of s1 r of
                None \<Rightarrow> (Inl InvalidRequestError, s1)
              | Some row \<Rightarrow> (Inr (), reload r row s1))"


subsection \<open>Flush, commit and rollback\<close>

text \<open>
  INSERT takes each column from the attribute of the instance; an attribute that is
  unset or \<^verbatim>\<open>None\<close> takes the \<^verbatim>\<open>default\<close> of the column, and NULL when there is none.
  The values \<^verbatim>\<open>uuid.uuid4\<close> returns are the sequence \<open>uuid4 s\<close>.
\<close>

definition column_default :: "column \<Rightarrow> 'id state \<Rightarrow> 'id val \<times> 'id state" where
  "column_default c s =
     (case col_default c of
        None \<Rightarrow> (VNone, s)
      | Some (Scalar b) \<Rightarrow> (VBool b, s)
      | Some Uuid4 \<Rightarrow> (VId (uuid4 s (uuid4_calls s)), s\<lparr>uuid4_calls := Suc (uuid4_calls s)\<rparr>))"

definition insert_value ::
  "column \<Rightarrow> (string \<rightharpoonup> 'id val) \<Rightarrow> 'id state \<Rightarrow> 'id val \<times> 'id state" where
  "insert_value c a s =
     (case a (name c) of
        None \<Rightarrow> column_default c s
      | Some v \<Rightarrow> if v = VNone then column_default c s else (v, s))"

fun insert_row ::
  "column list \<Rightarrow> (string \<rightharpoonup> 'id val) \<Rightarrow> 'id state \<Rightarrow> 'id row \<times> 'id state" where
  "insert_row [] a s = (Map.empty, s)"
| "insert_row (c # cs) a s =
     (case insert_value c a s of
        (v, s1) \<Rightarrow> (case insert_row cs a s1 of (row, s2) \<Rightarrow> (row(name c \<mapsto> v), s2)))"

text \<open>UPDATE writes the column attributes of the instance into its row.\<close>

definition update_row :: "table \<Rightarrow> (string \<rightharpoonup> 'id val) \<Rightarrow> 'id row \<Rightarrow> 'id row" where
  "update_row t a row = (\<lambda>c. if c \<in> set (column_names t) \<and> a c \<noteq> None then a c else row c)"

definition flush_add :: "nat \<Rightarrow> 'id state \<Rightarrow> error option \<times> 'id state" where
  "flush_add r s =
     (if \<not> r < length (instances s) then (Some InvalidRequestError, s)
      else
        let e = instances s ! r; t = cls e
        in case key e of
             None \<Rightarrow>
               (case insert_row (columns t) (attrs e) s of
                  (row, s1) \<Rightarrow>
                    (None,
                     s1\<lparr>db := (db s1)(t := db s1 t @ [row]),
                        instances := (instances s1)
                          [r := e\<lparr>attrs := (attrs e)(''id'' := row ''id''), key := row ''id''\<rparr>]\<rparr>))
           | Some k \<Rightarrow>
               if \<not> list_ex (\<lambda>row. row ''id'' = Some k) (db s t) then (Some StaleDataError, s)
               else
                 (None,
                  s\<lparr>db := (db s)
                       (t := map (\<lambda>row. if row ''id'' = Some k then update_row t (attrs e) row
                                         else row) (db s t)),
                    instances := (instances s)
                       [r := e\<lparr>key := (case attrs e ''id'' of None \<Rightarrow> key e | Some v \<Rightarrow> Some v)\<rparr>]\<rparr>))"

fun flush_adds :: "nat list \<Rightarrow> 'id state \<Rightarrow> error option \<times> 'id state" where
  "flush_adds [] s = (None, s)"
| "flush_adds (r # rs) s =
     (case flush_add r s of
        (Some e, s1) \<Rightarrow> (Some e, s1)
      | (None, s1) \<Rightarrow> flush_adds rs s1)"

text \<open>The unit of work flushes the instances of the user table before those of the
  account table, whose rows refer to it.\<close>

definition unit_of_work :: "'id entity list \<Rightarrow> nat list \<Rightarrow> nat list" where
  "unit_of_work es rs =
     filter (\<lambda>r. r < length es \<and> cls (es ! r) = User) rs @
     filter (\<lambda>r. \<not> (r < length es \<and> cls (es ! r) = User)) rs"

text \<open>
  Deleting a user. The user class reaches its accounts through the relationship
  \<^verbatim>\<open>oauth_accounts\<close> (\<^verbatim>\<open>user.oauth_accounts.append\<close> in \<^verbatim>\<open>add_oauth_account\<close>), which the
  application declares with SQLAlchemy's defaults: no delete cascade, no
  \<^verbatim>\<open>passive_deletes\<close>. The unit of work then first sets the foreign key of the rows that
  refer to the deleted row to NULL and only then deletes the row. The
  \<^verbatim>\<open>ondelete="cascade"\<close> of the foreign key acts in the store, on the rows that still
  refer to the deleted row; after the first step there are none.
\<close>

definition orphan :: "table \<Rightarrow> 'id row list \<Rightarrow> table \<Rightarrow> 'id row \<Rightarrow> 'id row" where
  "orphan t gone t' row =
     fold (\<lambda>c r. case foreign_key c of
                    None \<Rightarrow> r
                  | Some (ForeignKey tt c' a) \<Rightarrow>
                      if tt = t \<and> row (name c) \<noteq> None \<and> row (name c) \<noteq> Some VNone \<and>
                         row (name c) \<in> set (map (\<lambda>g. g c') gone)
                      then r(name c \<mapsto> VNone) else r)
          (columns t') row"

definition nullify_children ::
  "table \<Rightarrow> 'id val \<Rightarrow> (table \<Rightarrow> 'id row list) \<Rightarrow> (table \<Rightarrow> 'id row list)" where
  "nullify_children t k d =
     (let gone = filter (\<lambda>row. row ''id'' = Some k) (d t)
      in (\<lambda>t'. map (orphan t gone t') (d t')))"

definition cascades :: "table \<Rightarrow> 'id row \<Rightarrow> table \<Rightarrow> 'id row list \<Rightarrow> bool" where
  "cascades t' row t gone \<longleftrightarrow>
     list_ex (\<lambda>c. case foreign_key c of
                    None \<Rightarrow> False
                  | Some (ForeignKey tt c' a) \<Rightarrow>
                      tt = t \<and> a = ''cascade'' \<and> row (name c) \<noteq> None \<and>
                      row (name c) \<noteq> Some VNone \<and> row (name c) \<in> set (map (\<lambda>g. g c') gone))
             (columns t')"

definition delete_rows ::
  "table \<Rightarrow> 'id val \<Rightarrow> (table \<Rightarrow> 'id row list) \<Rightarrow> (table \<Rightarrow> 'id row list)" where
  "delete_rows t k d =
     (let gone = filter (\<lambda>row. row ''id'' = Some k) (d t)
      in (\<lambda>t'. filter (\<lambda>row. \<not> cascades t' row t gone)
                  (if t' = t then filter (\<lambda>row. row ''id'' \<noteq> Some k) (d t') else d t')))"

definition flush_delete :: "nat \<Rightarrow> 'id state \<Rightarrow> 'id state" where
  "flush_delete r s =
     (if \<not> r < length (instances s) then s
      else
        let e = instances s ! r
        in case key e of
             None \<Rightarrow> s
           | Some k \<Rightarrow>
               s\<lparr>db := delete_rows (cls e) k (nullify_children (cls e) k (db s)),
                 instances := (instances s)[r := e\<lparr>key := None\<rparr>]\<rparr>)"

text \<open>A flush that fails: the transaction is rolled back, so the rows are those before
  the flush; the unit of work is emptied, the persistent instances that were to be
  flushed are read from their rows again, and the session is left in the failed state.\<close>

definition expire :: "nat \<Rightarrow> 'id state \<Rightarrow> 'id state" where
  "expire r s = (case row_of s r of None \<Rightarrow> s | Some row \<Rightarrow> reload r row s)"

definition rollback :: "'id state \<Rightarrow> 'id state \<Rightarrow> 'id state" where
  "rollback s0 s1 =
     (fold expire (added s0) s0)
       \<lparr>added := [], deleted := [], uuid4_calls := uuid4_calls s1, failed := True\<rparr>"

text \<open>The flush writes the unit of work; the store accepts the rows when they meet the
  declared schema.\<close>

definition flush :: "'id state \<Rightarrow> error option \<times> 'id state" where
  "flush s =
     (case flush_adds (unit_of_work (instances s) (added s)) s of
        (Some e, s1) \<Rightarrow> (Some e, rollback s s1)
      | (None, s1) \<Rightarrow>
          let s2 = fold flush_delete (deleted s1) s1
          in if \<not> typed (db s2) then (Some DataError, rollback s s2)
             else if \<not> constraints_ok (db s2) then (Some IntegrityError, rollback s s2)
             else (None, s2\<lparr>added := [], deleted := []\<rparr>))"

definition session_commit :: "'id state \<Rightarrow> (error + unit) \<times> 'id state" where
  "session_commit s =
     (let s0 = s\<lparr>calls := calls s @ [Commit]\<rparr>
      in if failed s0 then (Inl PendingRollbackError, s0)
         else case flush s0 of
                (Some e, s1) \<Rightarrow> (Inl e, s1)
              | (None, s1) \<Rightarrow> (Inr (), s1))"

text \<open>
  \<^verbatim>\<open>execute\<close> flushes first when the unit of work is not empty (autoflush), and raises what
  the flush raises. The result is the selected rows in the order the store returns them.
\<close>

definition session_execute ::
  "'id select_stmt \<Rightarrow> 'id state \<Rightarrow> (error + (table \<times> 'id row) list list) \<times> 'id state" where
  "session_execute stmt s =
     (let s1 = s\<lparr>calls := calls s @ [Execute]\<rparr>
      in if failed s1 then (Inl PendingRollbackError, s1)
         else case (if added s1 = [] \<and> deleted s1 = [] then (None, s1) else flush s1) of
                (Some e, s2) \<Rightarrow> (Inl e, s2)
              | (None, s2) \<Rightarrow>
                  if stmt_ok stmt
                  then (Inr (rotate (row_order s2 (length (calls s)))
                                    (matching (sql_lower s2) stmt (db s2))), s2)
                  else (Inl ProgrammingError, s2))"

text \<open>\<^verbatim>\<open>Result.first()\<close>: the first row, its entities loaded, or \<^verbatim>\<open>None\<close>; the other rows
  are discarded.\<close>

fun first :: "(table \<times> 'id row) list list \<Rightarrow> 'id state \<Rightarrow> nat list option \<times> 'id state" where
  "first [] s = (None, s)"
| "first (r # rs) s = (case load_row r s of (ns, s1) \<Rightarrow> (Some ns, s1))"

subsection \<open>Instances of the mapped classes\<close>

text \<open>The constructor of a declarative class: a keyword that is not an attribute of the
  class raises \<^verbatim>\<open>TypeError\<close>, every other keyword is set on the new instance.\<close>

fun init_kwargs ::
  "mapped_class \<Rightarrow> (string \<times> 'id val) list \<Rightarrow> (string \<rightharpoonup> 'id val) \<Rightarrow> error + (string \<rightharpoonup> 'id val)" where
  "init_kwargs c [] a = Inr a"
| "init_kwargs c ((k, v) # kvs) a =
     (if \<not> hasattr c k then Inl TypeError else init_kwargs c kvs (a(k \<mapsto> v)))"

definition declarative_constructor ::
  "mapped_class \<Rightarrow> (string \<times> 'id val) list \<Rightarrow> 'id state \<Rightarrow> (error + nat) \<times> 'id state" where
  "declarative_constructor c kwargs s =
     (case init_kwargs c kwargs Map.empty of
        Inl e \<Rightarrow> (Inl e, s)
      | Inr a \<Rightarrow>
          (Inr (length (instances s)),
           s\<lparr>instances := instances s @ [\<lparr>cls = mapped_table c, attrs = a, key = None\<rparr>]\<rparr>))"

definition setattr :: "nat \<Rightarrow> string \<Rightarrow> 'id val \<Rightarrow> 'id state \<Rightarrow> 'id state" where
  "setattr r k v s =
     s\<lparr>instances := (instances s)[r := (instances s ! r)\<lparr>attrs := (attrs (instances s ! r))(k \<mapsto> v)\<rparr>]\<rparr>"

text \<open>\<^verbatim>\<open>user.oauth_accounts.append(oauth_account)\<close>: the relationship is an attribute of the
  application's user class; through it the account takes the user's primary key as its
  \<^verbatim>\<open>user_id\<close>.\<close>

definition oauth_accounts_append ::
  "mapped_class \<Rightarrow> nat \<Rightarrow> nat \<Rightarrow> 'id state \<Rightarrow> (error + unit) \<times> 'id state" where
  "oauth_accounts_append c user oauth_account s =
     (if ''oauth_accounts'' \<notin> set (class_attrs c) \<or> \<not> user < length (instances s)
      then (Inl AttributeError, s)
      else
        (Inr (),
         s\<lparr>instances := (instances s)
             [oauth_account := (instances s ! oauth_account)
                \<lparr>attrs := (attrs (instances s ! oauth_account))
                            (''user_id'' := attrs (instances s ! user) ''id'')\<rparr>]\<rparr>))"

subsection \<open>SQLAlchemyUserDatabase\<close>

text \<open>
  The adapter holds the two mapped classes; the session is the state every method takes
  and returns. Each method follows its source statement by statement, an \<^verbatim>\<open>await\<close> being
  the call it waits for. \<^verbatim>\<open>_get_user\<close> is \<open>get_user\<close> here.
\<close>

record SQLAlchemyUserDatabase =
  user_table :: mapped_class
  oauth_account_table :: "mapped_class option"

definition get_user ::
  "'id select_stmt \<Rightarrow> 'id state \<Rightarrow> (error + nat option) \<times> 'id state" where
  "get_user statement s =
     (case session_execute statement s of
        (Inl e, s1) \<Rightarrow> (Inl e, s1)
      | (Inr results, s1) \<Rightarrow>
          (case first results s1 of
             (None, s2) \<Rightarrow> (Inr None, s2)
           | (Some user, s2) \<Rightarrow>
               (case user of
                  [] \<Rightarrow> (Inl IndexError, s2)
                | u # us \<Rightarrow> (Inr (Some u), s2))))"

definition get ::
  "SQLAlchemyUserDatabase \<Rightarrow> 'id \<Rightarrow> 'id state \<Rightarrow> (error + nat option) \<times> 'id state" where
  "get self i s =
     (let statement =
            where_clause (select (mapped_table (user_table self)))
              (Eq (Col (mapped_table (user_table self)) ''id'') (Lit (VId i)))
      in get_user statement s)"

definition get_by_email ::
  "SQLAlchemyUserDatabase \<Rightarrow> string \<Rightarrow> 'id state \<Rightarrow> (error + nat option) \<times> 'id state" where
  "get_by_email self email s =
     (let statement =
            where_clause (select (mapped_table (user_table self)))
              (Eq (Lower (Col (mapped_table (user_table self)) ''email''))
                  (Lower (Lit (VStr email))))
      in get_user statement s)"

definition get_by_oauth_account ::
  "SQLAlchemyUserDatabase \<Rightarrow> string \<Rightarrow> string \<Rightarrow> 'id state \<Rightarrow> (error + nat option) \<times> 'id state" where
  "get_by_oauth_account self oauth account_id s =
     (case oauth_account_table self of
        None \<Rightarrow> (Inl NotImplementedError, s)
      | Some oauth_table \<Rightarrow>
          let statement =
                where_clause
                  (where_clause
                     (join (select (mapped_table (user_table self))) (mapped_table oauth_table))
                     (Eq (Col (mapped_table oauth_table) ''oauth_name'') (Lit (VStr oauth))))
                  (Eq (Col (mapped_table oauth_table) ''account_id'') (Lit (VStr account_id)))
          in get_user statement s)"

definition create ::
  "SQLAlchemyUserDatabase \<Rightarrow> (string \<times> 'id val) list \<Rightarrow> 'id state \<Rightarrow> (error + nat) \<times> 'id state" where
  "create self create_dict s =
     (case declarative_constructor (user_table self) create_dict s of
        (Inl e, s0) \<Rightarrow> (Inl e, s0)
      | (Inr user, s0) \<Rightarrow>
          let s1 = session_add user s0
          in case session_commit s1 of
               (Inl e, s2) \<Rightarrow> (Inl e, s2)
             | (Inr u, s2) \<Rightarrow>
                 (case session_refresh user s2 of
                    (Inl e, s3) \<Rightarrow> (Inl e, s3)
                  | (Inr u', s3) \<Rightarrow> (Inr user, s3)))"

definition update ::
  "SQLAlchemyUserDatabase \<Rightarrow> nat \<Rightarrow> (string \<times> 'id val) list \<Rightarrow> 'id state \<Rightarrow> (error + nat) \<times> 'id state" where
  "update self user update_dict s =
     (let s0 = fold (\<lambda>(k, v). setattr user k v) update_dict s;
          s1 = session_add user s0
      in case session_commit s1 of
           (Inl e, s2) \<Rightarrow> (Inl e, s2)
         | (Inr u, s2) \<Rightarrow>
             (case session_refresh user s2 of
                (Inl e, s3) \<Rightarrow> (Inl e, s3)
              | (Inr u', s3) \<Rightarrow> (Inr user, s3)))"

definition delete ::
  "SQLAlchemyUserDatabase \<Rightarrow> nat \<Rightarrow> 'id state \<Rightarrow> (error + unit) \<times> 'id state" where
  "delete self user s =
     (case session_delete user s of
        (Inl e, s1) \<Rightarrow> (Inl e, s1)
      | (Inr u, s1) \<Rightarrow> session_commit s1)"

definition add_oauth_account ::
  "SQLAlchemyUserDatabase \<Rightarrow> nat \<Rightarrow> (string \<times> 'id val) list \<Rightarrow> 'id state \<Rightarrow> (error + nat) \<times> 'id state" where
  "add_oauth_account self user create_dict s =
     (case oauth_account_table self of
        None \<Rightarrow> (Inl NotImplementedError, s)
      | Some oauth_table \<Rightarrow>
          (case declarative_constructor oauth_table create_dict s of
             (Inl e, s0) \<Rightarrow> (Inl e, s0)
           | (Inr oauth_account, s0) \<Rightarrow>
               let s1 = session_add oauth_account s0
               in case oauth_accounts_append (user_table self) user oauth_account s1 of
                    (Inl e, s2) \<Rightarrow> (Inl e, s2)
                  | (Inr u, s2) \<Rightarrow>
                      let s3 = session_add user s2
                      in case session_commit s3 of
                           (Inl e, s4) \<Rightarrow> (Inl e, s4)
                         | (Inr u', s4) \<Rightarrow>
                             (case session_refresh user s4 of
                                (Inl e, s5) \<Rightarrow> (Inl e, s5)
                              | (Inr u'', s5) \<Rightarrow> (Inr user, s5))))"

definition update_oauth_account ::
  "SQLAlchemyUserDatabase \<Rightarrow> nat \<Rightarrow> nat \<Rightarrow> (string \<times> 'id val) list \<Rightarrow> 'id state
     \<Rightarrow> (error + nat) \<times> 'id state" where
  "update_oauth_account self user oauth_account update_dict s =
     (case oauth_account_table self of
        None \<Rightarrow> (Inl NotImplementedError, s)
      | Some oauth_table \<Rightarrow>
          let s0 = fold (\<lambda>(k, v). setattr oauth_account k v) update_dict s;
              s1 = session_add oauth_account s0
          in case session_commit s1 of
               (Inl e, s2) \<Rightarrow> (Inl e, s2)
             | (Inr u, s2) \<Rightarrow>
                 (case session_refresh user s2 of
                    (Inl e, s3) \<Rightarrow> (Inl e, s3)
                  | (Inr u', s3) \<Rightarrow> (Inr user, s3)))"


subsection \<open>Well-formed adapters and states\<close>

text \<open>The adapter is constructed with a user class on the user table and, when it has
  one, an account class on the account table (the bounds of the type parameters in
  the source).\<close>

definition adapter_ok :: "SQLAlchemyUserDatabase \<Rightarrow> bool" where
  "adapter_ok self \<longleftrightarrow>
     mapped_table (user_table self) = User \<and>
     (case oauth_account_table self of None \<Rightarrow> True | Some c \<Rightarrow> mapped_table c = OAuthAccount)"

text \<open>Between two calls of the adapter the session has nothing to flush.\<close>

definition idle :: "'id state \<Rightarrow> bool" where
  "idle s \<longleftrightarrow> added s = [] \<and> deleted s = []"

text \<open>A stored entity: a persistent instance whose column attributes are those of its
  row.\<close>

definition persistent :: "'id state \<Rightarrow> nat \<Rightarrow> bool" where
  "persistent s r \<longleftrightarrow>
     (case row_of s r of
        None \<Rightarrow> False
      | Some row \<Rightarrow>
          list_all (\<lambda>c. row c \<noteq> None \<and> attrs (instances s ! r) c = row c)
                   (column_names (cls (instances s ! r))))"

text \<open>The rows a case-insensitive lookup of an email selects; \<open>lw\<close> is the \<^verbatim>\<open>LOWER\<close> of
  the store.\<close>

definition email_matches :: "(string \<Rightarrow> string) \<Rightarrow> string \<Rightarrow> 'id row \<Rightarrow> bool" where
  "email_matches lw q row \<longleftrightarrow>
     (case row ''email'' of Some (VStr e) \<Rightarrow> lw e = lw q | _ \<Rightarrow> False)"

text \<open>The states an adapter reaches from an empty store by calls of its methods.\<close>

inductive reachable :: "SQLAlchemyUserDatabase \<Rightarrow> 'id state \<Rightarrow> bool" for self where
  reach_init: "reachable self (init u ord lw)"
| reach_get: "reachable self s \<Longrightarrow> reachable self (snd (get self i s))"
| reach_get_by_email: "reachable self s \<Longrightarrow> reachable self (snd (get_by_email self email s))"
| reach_get_by_oauth_account:
    "reachable self s \<Longrightarrow> reachable self (snd (get_by_oauth_account self oauth account_id s))"
| reach_create: "reachable self s \<Longrightarrow> reachable self (snd (create self create_dict s))"
| reach_update: "reachable self s \<Longrightarrow> reachable self (snd (update self user update_dict s))"
| reach_delete: "reachable self s \<Longrightarrow> reachable self (snd (delete self user s))"
| reach_add_oauth_account:
    "reachable self s \<Longrightarrow> reachable self (snd (add_oauth_account self user create_dict s))"
| reach_update_oauth_account:
    "reachable self s \<Longrightarrow>
     reachable self (snd (update_oauth_account self user oauth_account update_dict s))"

subsection \<open>A concrete adapter and concrete runs\<close>

definition plain_db :: SQLAlchemyUserDatabase where
  "plain_db =
     \<lparr>user_table = \<lparr>mapped_table = User, class_attrs = [''__tablename__'']\<rparr>,
      oauth_account_table = None\<rparr>"

definition oauth_db :: SQLAlchemyUserDatabase where
  "oauth_db =
     \<lparr>user_table = \<lparr>mapped_table = User, class_attrs = [''__tablename__'', ''oauth_accounts'']\<rparr>,
      oauth_account_table = Some \<lparr>mapped_table = OAuthAccount, class_attrs = [''__tablename__'']\<rparr>\<rparr>"

definition empty_store :: "nat state" where
  "empty_store = init (\<lambda>n. n) (\<lambda>n. 0) lower"

definition upper_dict :: "(string \<times> nat val) list" where
  "upper_dict = [(''email'', VStr ''A@B.com''), (''hashed_password'', VStr ''x'')]"

definition lower_dict :: "(string \<times> nat val) list" where
  "lower_dict = [(''email'', VStr ''a@b.com''), (''hashed_password'', VStr ''y'')]"

definition test_dict :: "(string \<times> nat val) list" where
  "test_dict = [(''email'', VStr ''u@test.com''), (''hashed_password'', VStr ''x'')]"

definition flags_dict :: "(string \<times> nat val) list" where
  "flags_dict = [(''is_active'', VBool False), (''is_verified'', VBool True)]"

definition google_dict :: "(string \<times> nat val) list" where
  "google_dict =
     [(''oauth_name'', VStr ''google''), (''access_token'', VStr ''t''),
      (''account_id'', VStr ''42''), (''account_email'', VStr ''a@b.com'')]"

text \<open>One user; two users whose emails differ only in case; the two users, the first
  with an account.\<close>

definition one_user :: "nat state" where
  "one_user = snd (create oauth_db upper_dict empty_store)"

definition two_users :: "nat state" where
  "two_users = snd (create oauth_db lower_dict one_user)"

definition one_account :: "nat state" where
  "one_account = snd (add_oauth_account oauth_db 0 google_dict two_users)"

definition projection :: "string list \<Rightarrow> 'id row list \<Rightarrow> 'id val option list list" where
  "projection cs rows = map (\<lambda>r. map r cs) rows"

section \<open>Properties\<close>

subsection \<open>The constructor\<close>


lemma column_names_User:
  "column_names User = [''id'', ''email'', ''hashed_password'', ''is_active'', ''is_superuser'', ''is_verified'']"
  by (simp add: column_names_def SQLAlchemyBaseUserTableUUID_def SQLAlchemyBaseUserTable_def Column_def)

lemma column_names_OAuthAccount:
  "column_names OAuthAccount = [''id'', ''user_id'', ''oauth_name'', ''access_token'', ''expires_at'',
     ''refresh_token'', ''account_id'', ''account_email'']"
  by (simp add: column_names_def SQLAlchemyBaseOAuthAccountTableUUID_def
      SQLAlchemyBaseOAuthAccountTable_def Column_def)




text \<open>
  Claim C3. On an adapter constructed without an OAuth account table, each of
  \<^verbatim>\<open>get_by_oauth_account\<close>, \<^verbatim>\<open>add_oauth_account\<close> and \<^verbatim>\<open>update_oauth_account\<close> raises
  \<^verbatim>\<open>NotImplementedError\<close> for all arguments, and the state it leaves is the state it was
  called in: the session received no call, nothing was queried and nothing changed.
\<close>

theorem oauth_unsupported:
  assumes "oauth_account_table self = None"
  shows "get_by_oauth_account self oauth account_id s = (Inl NotImplementedError, s) \<and>
         add_oauth_account self user create_dict s = (Inl NotImplementedError, s) \<and>
         update_oauth_account self user oauth_account update_dict s
           = (Inl NotImplementedError, s)"
  using assms
  by (simp add: get_by_oauth_account_def add_oauth_account_def update_oauth_account_def)

theorem oauth_unsupported_witness:
  "oauth_account_table plain_db = None \<and>
   get_by_oauth_account plain_db ''google'' ''42'' one_user = (Inl NotImplementedError, one_user) \<and>
   add_oauth_account plain_db 0 google_dict one_user = (Inl NotImplementedError, one_user) \<and>
   update_oauth_account plain_db 0 0 google_dict one_user = (Inl NotImplementedError, one_user)"
proof -
  have h: "oauth_account_table plain_db = None"
    by (simp add: plain_db_def)
  from oauth_unsupported [OF h, of "''google''" "''42''" one_user 0 google_dict 0 google_dict] h
  show ?thesis
    by simp
qed

subsection \<open>Loading a row\<close>

lemma identity_lookup_Some:
  "identity_lookup es t k = Some n \<Longrightarrow> n < length es \<and> cls (es ! n) = t \<and> key (es ! n) = k"
proof -
  assume "identity_lookup es t k = Some n"
  then have f: "find (\<lambda>n. cls (es ! n) = t \<and> key (es ! n) = k) [0..<length es] = Some n"
    by (simp add: identity_lookup_def split: if_splits)
  then have "n \<in> set [0..<length es]"
    by (auto simp: find_Some_iff)
  moreover from f have "cls (es ! n) = t \<and> key (es ! n) = k"
    by (auto simp: find_Some_iff)
  ultimately show ?thesis by simp
qed

lemma load_entity_conj:
  assumes "load_entity t r s = (n, s')"
  shows "n < length (instances s') \<and>
         attrs (instances s' ! n) c
           = (if c \<in> set (column_names t) then r c else attrs (instances s' ! n) c) \<and>
         db s' = db s \<and> added s' = added s \<and> deleted s' = deleted s \<and>
         calls s' = calls s \<and> uuid4 s' = uuid4 s \<and> uuid4_calls s' = uuid4_calls s \<and>
         length (instances s) \<le> length (instances s') \<and> failed s' = failed s \<and>
         cls (instances s' ! n) = t \<and> key (instances s' ! n) = r ''id'' \<and>
         row_order s' = row_order s \<and> sql_lower s' = sql_lower s"
proof (cases "identity_lookup (instances s) t (r ''id'')")
  case None
  with assms have n: "n = length (instances s)"
    and s': "s' = s\<lparr>instances := instances s @
                [\<lparr>cls = t, attrs = load_columns t r Map.empty, key = r ''id''\<rparr>]\<rparr>"
    by (simp_all add: load_entity_def)
  show ?thesis
    by (simp add: n s' load_columns_def)
next
  case (Some m)
  from identity_lookup_Some [OF Some] have m: "m < length (instances s)"
    "cls (instances s ! m) = t" "key (instances s ! m) = r ''id''"
    by simp_all
  from assms Some have n: "n = m"
    and s': "s' = s\<lparr>instances := (instances s)
                  [m := (instances s ! m)\<lparr>attrs := load_columns t r (attrs (instances s ! m))\<rparr>]\<rparr>"
    by (auto simp: load_entity_def)
  show ?thesis
    using m by (simp add: n s' load_columns_def)
qed

lemma load_entity_props:
  assumes "load_entity t r s = (n, s')"
  shows "n < length (instances s')"
    and "attrs (instances s' ! n) c = (if c \<in> set (column_names t) then r c else attrs (instances s' ! n) c)"
    and "db s' = db s" and "added s' = added s" and "deleted s' = deleted s"
    and "calls s' = calls s" and "uuid4 s' = uuid4 s" and "uuid4_calls s' = uuid4_calls s"
    and "length (instances s) \<le> length (instances s')" and "failed s' = failed s"
    and "cls (instances s' ! n) = t" and "key (instances s' ! n) = r ''id''"
    and "row_order s' = row_order s" and "sql_lower s' = sql_lower s"
  using load_entity_conj [OF assms, of c] by blast+

lemma load_entity_columns:
  assumes "load_entity t r s = (n, s')"
  shows "\<forall>c \<in> set (column_names t). attrs (instances s' ! n) c = r c"
proof
  fix c assume "c \<in> set (column_names t)"
  with load_entity_props(2) [OF assms, of c] show "attrs (instances s' ! n) c = r c"
    by simp
qed

subsection \<open>The lookup\<close>

lemma from_rows_shape:
  "env \<in> set (from_rows stmt d) \<Longrightarrow>
   \<exists>r rest. env = (entity_of stmt, r) # rest \<and> r \<in> set (d (entity_of stmt))"
  by (auto simp: from_rows_def split: option.splits)

lemma matching_shape:
  "row \<in> set (matching lw stmt d) \<Longrightarrow>
   \<exists>r. row = [(entity_of stmt, r)] \<and> r \<in> set (d (entity_of stmt))"
  by (auto simp: matching_def dest!: from_rows_shape)

lemma session_execute_rows:
  assumes "session_execute statement s = (Inr results, s1)"
  shows "set results = set (matching (sql_lower s1) statement (db s1))"
  using assms
  by (auto simp: session_execute_def Let_def split: if_splits prod.splits option.splits)

text \<open>
  Claim C7. When the session executes the statement, \<^verbatim>\<open>_get_user\<close> returns \<^verbatim>\<open>None\<close>
  exactly when the result has no row. When it has rows, however many, \<^verbatim>\<open>_get_user\<close>
  raises nothing and returns the entity of the first row: an instance of the selected
  class whose identity key is the primary key of that row and whose column attributes are
  the values of that row, a row of the table.
\<close>

theorem get_user_first_row:
  assumes "session_execute statement s = (Inr results, s1)"
  shows "(fst (get_user statement s) = Inr None \<longleftrightarrow> results = []) \<and>
         (\<forall>row rows. results = row # rows \<longrightarrow>
            (\<exists>r n s2. row = [(entity_of statement, r)] \<and>
                 r \<in> set (db s1 (entity_of statement)) \<and>
                 load_entity (entity_of statement) r s1 = (n, s2) \<and>
                 get_user statement s = (Inr (Some n), s2) \<and>
                 n < length (instances s2) \<and>
                 cls (instances s2 ! n) = entity_of statement \<and>
                 key (instances s2 ! n) = r ''id'' \<and>
                 (\<forall>c \<in> set (column_names (entity_of statement)).
                    attrs (instances s2 ! n) c = r c) \<and>
                 db s2 = db s1))"
proof (cases results)
  case Nil
  with assms show ?thesis by (simp add: get_user_def)
next
  case (Cons row rows)
  with session_execute_rows [OF assms]
  have "row \<in> set (matching (sql_lower s1) statement (db s1))"
    by (metis list.set_intros(1))
  from matching_shape [OF this] obtain r where
    r: "row = [(entity_of statement, r)]" and rin: "r \<in> set (db s1 (entity_of statement))"
    by blast
  obtain n s2 where l: "load_entity (entity_of statement) r s1 = (n, s2)"
    by (cases "load_entity (entity_of statement) r s1")
  from assms Cons r l have g: "get_user statement s = (Inr (Some n), s2)"
    by (simp add: get_user_def)
  from g have ne: "fst (get_user statement s) \<noteq> Inr None"
    by simp
  from load_entity_props [OF l] load_entity_columns [OF l] r rin l g
  have "\<exists>r n s2. row = [(entity_of statement, r)] \<and>
                 r \<in> set (db s1 (entity_of statement)) \<and>
                 load_entity (entity_of statement) r s1 = (n, s2) \<and>
                 get_user statement s = (Inr (Some n), s2) \<and>
                 n < length (instances s2) \<and>
                 cls (instances s2 ! n) = entity_of statement \<and>
                 key (instances s2 ! n) = r ''id'' \<and>
                 (\<forall>c \<in> set (column_names (entity_of statement)).
                    attrs (instances s2 ! n) c = r c) \<and>
                 db s2 = db s1"
    by (intro exI [of _ r] exI [of _ n] exI [of _ s2] conjI)
  with Cons ne show ?thesis
    by simp
qed


theorem get_user_first_row_witness:
  "session_execute
     (where_clause (select User) (Eq (Lower (Col User ''email'')) (Lit (VStr ''a@b.com''))))
     two_users
   = (Inr (rotate (row_order two_users (length (calls two_users)))
             (matching (sql_lower two_users)
                (where_clause (select User)
                   (Eq (Lower (Col User ''email'')) (Lit (VStr ''a@b.com''))))
                (db two_users))),
      two_users\<lparr>calls := calls two_users @ [Execute]\<rparr>) \<and>
   map (map (\<lambda>(t, r). (t, r ''id'', r ''email'')))
     (rotate (row_order two_users (length (calls two_users)))
        (matching (sql_lower two_users)
           (where_clause (select User)
              (Eq (Lower (Col User ''email'')) (Lit (VStr ''a@b.com''))))
           (db two_users)))
   = [[(User, Some (VId 0), Some (VStr ''A@B.com''))],
      [(User, Some (VId 1), Some (VStr ''a@b.com''))]] \<and>
   fst (get_user
          (where_clause (select User) (Eq (Lower (Col User ''email'')) (Lit (VStr ''a@b.com''))))
          two_users) = Inr (Some 0) \<and>
   cls (instances (snd (get_user
          (where_clause (select User) (Eq (Lower (Col User ''email'')) (Lit (VStr ''a@b.com''))))
          two_users)) ! 0) = User \<and>
   key (instances (snd (get_user
          (where_clause (select User) (Eq (Lower (Col User ''email'')) (Lit (VStr ''a@b.com''))))
          two_users)) ! 0) = Some (VId 0) \<and>
   attrs (instances (snd (get_user
          (where_clause (select User) (Eq (Lower (Col User ''email'')) (Lit (VStr ''a@b.com''))))
          two_users)) ! 0) ''email'' = Some (VStr ''A@B.com'')"
proof -
  let ?stmt = "where_clause (select User) (Eq (Lower (Col User ''email'')) (Lit (VStr ''a@b.com'')))
                 :: nat select_stmt"
  define R where "R = rotate (row_order two_users (length (calls two_users)))
                        (matching (sql_lower two_users) ?stmt (db two_users))"
  have ok: "stmt_ok ?stmt"
    by code_simp
  have nf: "\<not> failed two_users" and a: "added two_users = []" and d: "deleted two_users = []"
    by code_simp+
  have h: "session_execute ?stmt two_users
           = (Inr R, two_users\<lparr>calls := calls two_users @ [Execute]\<rparr>)"
    by (simp add: session_execute_def ok nf a d R_def)
  have p: "map (map (\<lambda>(t, r). (t, r ''id'', r ''email''))) R
           = [[(User, Some (VId 0), Some (VStr ''A@B.com''))],
              [(User, Some (VId 1), Some (VStr ''a@b.com''))]]"
    unfolding R_def by code_simp
  have i: "snd (hd (hd R)) ''id'' = Some (VId 0)"
    and e: "snd (hd (hd R)) ''email'' = Some (VStr ''A@B.com'')"
    unfolding R_def by code_simp+
  have g0: "fst (get_user ?stmt two_users) = Inr (Some 0)"
    by code_simp
  from p have "R \<noteq> []"
    by auto
  then obtain row rows where c: "R = row # rows"
    by (auto simp: neq_Nil_conv)
  from get_user_first_row [OF h] c obtain r n s2 where
    row: "row = [(entity_of ?stmt, r)]"
    and g: "get_user ?stmt two_users = (Inr (Some n), s2)"
    and cl: "cls (instances s2 ! n) = entity_of ?stmt"
    and k: "key (instances s2 ! n) = r ''id''"
    and at: "\<forall>c \<in> set (column_names (entity_of ?stmt)). attrs (instances s2 ! n) c = r c"
    by blast
  from g g0 have n: "n = 0" and s2: "s2 = snd (get_user ?stmt two_users)"
    by simp_all
  from row c have r: "r = snd (hd (hd R))"
    by simp
  have en: "entity_of ?stmt = User"
    by (simp add: where_clause_def select_def)
  from at have "attrs (instances s2 ! n) ''email'' = r ''email''"
    by (simp add: en column_names_User)
  then have c3: "attrs (instances (snd (get_user ?stmt two_users)) ! 0) ''email''
                 = Some (VStr ''A@B.com'')"
    by (simp add: n s2 r e)
  from cl have c1: "cls (instances (snd (get_user ?stmt two_users)) ! 0) = User"
    by (simp add: n s2 en)
  from k have c2: "key (instances (snd (get_user ?stmt two_users)) ! 0) = Some (VId 0)"
    by (simp add: n s2 r i)
  from h p g0 c1 c2 c3 show ?thesis
    unfolding R_def by (intro conjI)
qed

subsection \<open>Lookups\<close>

lemma session_execute_idle:
  assumes "\<not> failed s" and "idle s"
  shows "session_execute stmt s =
     (if stmt_ok stmt
      then (Inr (rotate (row_order s (length (calls s))) (matching (sql_lower s) stmt (db s))),
            s\<lparr>calls := calls s @ [Execute]\<rparr>)
      else (Inl ProgrammingError, s\<lparr>calls := calls s @ [Execute]\<rparr>))"
  using assms by (simp add: session_execute_def idle_def)

lemma get_user_eq:
  assumes "\<not> failed s" and "idle s"
  shows "get_user statement s =
     (if \<not> stmt_ok statement then (Inl ProgrammingError, s\<lparr>calls := calls s @ [Execute]\<rparr>)
      else case rotate (row_order s (length (calls s)))
                  (matching (sql_lower s) statement (db s)) of
             [] \<Rightarrow> (Inr None, s\<lparr>calls := calls s @ [Execute]\<rparr>)
           | row # rows \<Rightarrow>
               (case load_entity (entity_of statement) (snd (hd row)) (s\<lparr>calls := calls s @ [Execute]\<rparr>) of
                  (n, s2) \<Rightarrow> (Inr (Some n), s2)))"
proof (cases "stmt_ok statement")
  case False
  then show ?thesis by (simp add: get_user_def session_execute_idle [OF assms])
next
  case True
  show ?thesis
  proof (cases "rotate (row_order s (length (calls s))) (matching (sql_lower s) statement (db s))")
    case Nil
    with True show ?thesis by (simp add: get_user_def session_execute_idle [OF assms])
  next
    case (Cons row rows)
    then have "row \<in> set (rotate (row_order s (length (calls s)))
                             (matching (sql_lower s) statement (db s)))"
      by simp
    then have "row \<in> set (matching (sql_lower s) statement (db s))"
      by simp
    then obtain r where "row = [(entity_of statement, r)]"
      using matching_shape by blast
    with True Cons show ?thesis
      by (simp add: get_user_def session_execute_idle [OF assms] split: prod.splits)
  qed
qed

lemma matching_select_where:
  "matching lw (where_clause (select t) c) d
   = map (\<lambda>r. [(t, r)]) (filter (\<lambda>r. holds lw [(t, r)] c) (d t))"
  by (simp add: matching_def from_rows_def select_def where_clause_def filter_map comp_def)

lemma first_rows:
  "(case map (\<lambda>r. [(t, r)]) xs of [] \<Rightarrow> a | row # rows \<Rightarrow> G row)
   = (case xs of [] \<Rightarrow> a | r # rs \<Rightarrow> G [(t, r)])"
  by (cases xs) simp_all

lemma first_filter:
  "(case filter P xs of [] \<Rightarrow> a | r # rs \<Rightarrow> F r) = (case find P xs of None \<Rightarrow> a | Some r \<Rightarrow> F r)"
  by (induction xs) auto

lemma filter_key_short:
  "distinct (map f xs) \<Longrightarrow> length (filter (\<lambda>r. f r = k) xs) \<le> 1"
proof (induction xs)
  case Nil
  then show ?case by simp
next
  case (Cons x xs)
  show ?case
  proof (cases "f x = k")
    case True
    from Cons.prems have "f x \<notin> f ` set xs"
      by simp
    with True have "\<forall>r \<in> set xs. f r \<noteq> k"
      by (metis image_eqI)
    then have "filter (\<lambda>r. f r = k) xs = []"
      by (simp add: filter_empty_conv)
    with True show ?thesis by simp
  next
    case False
    with Cons show ?thesis by simp
  qed
qed

lemma rotate_short: "length xs \<le> 1 \<Longrightarrow> rotate n xs = xs"
  by (cases xs) (simp_all add: rotate_is_Nil_conv)

lemma holds_id:
  "holds lw [(t, r)] (Eq (Col t ''id'') (Lit (VId i))) \<longleftrightarrow> r ''id'' = Some (VId i)"
  by (auto split: option.splits)

lemma holds_email:
  "holds lw [(t, r)] (Eq (Lower (Col t ''email'')) (Lower (Lit (VStr q)))) \<longleftrightarrow> email_matches lw q r"
  by (auto simp: email_matches_def split: option.splits val.splits)

lemma stmt_ok_get: "stmt_ok (where_clause (select User) (Eq (Col User ''id'') (Lit (VId i))))"
  by (simp add: stmt_ok_def where_clause_def select_def column_names_User)

lemma stmt_ok_get_by_email:
  "stmt_ok (where_clause (select User) (Eq (Lower (Col User ''email'')) (Lower (Lit (VStr q)))))"
  by (simp add: stmt_ok_def where_clause_def select_def column_names_User
      SQLAlchemyBaseUserTableUUID_def SQLAlchemyBaseUserTable_def Column_def)

lemma entity_of_where [simp]: "entity_of (where_clause (select t) c) = t"
  by (simp add: where_clause_def select_def)

lemma get_eq:
  assumes "adapter_ok self" and "\<not> failed s" and "idle s"
    and "distinct (map (\<lambda>r. r ''id'') (db s User))"
  shows "get self i s =
     (case find (\<lambda>r. r ''id'' = Some (VId i)) (db s User) of
        None \<Rightarrow> (Inr None, s\<lparr>calls := calls s @ [Execute]\<rparr>)
      | Some r \<Rightarrow>
          (case load_entity User r (s\<lparr>calls := calls s @ [Execute]\<rparr>) of
             (n, s2) \<Rightarrow> (Inr (Some n), s2)))"
proof -
  from assms have u: "mapped_table (user_table self) = User"
    by (simp add: adapter_ok_def)
  have r: "rotate n (filter (\<lambda>r. r ''id'' = Some (VId i)) (db s User))
           = filter (\<lambda>r. r ''id'' = Some (VId i)) (db s User)" for n
    by (rule rotate_short, rule filter_key_short, rule assms(4))
  show ?thesis
    unfolding get_def Let_def u get_user_eq [OF assms(2,3)] matching_select_where
    by (simp add: stmt_ok_get holds_id rotate_map r first_rows first_filter
        del: holds.simps cong: option.case_cong list.case_cong)
qed

lemma get_by_email_eq:
  assumes "adapter_ok self" and "\<not> failed s" and "idle s"
  shows "get_by_email self q s =
     (case rotate (row_order s (length (calls s)))
             (filter (email_matches (sql_lower s) q) (db s User)) of
        [] \<Rightarrow> (Inr None, s\<lparr>calls := calls s @ [Execute]\<rparr>)
      | r # rs \<Rightarrow>
          (case load_entity User r (s\<lparr>calls := calls s @ [Execute]\<rparr>) of
             (n, s2) \<Rightarrow> (Inr (Some n), s2)))"
proof -
  from assms have u: "mapped_table (user_table self) = User"
    by (simp add: adapter_ok_def)
  show ?thesis
    unfolding get_by_email_def Let_def u get_user_eq [OF assms(2,3)] matching_select_where
    by (simp add: stmt_ok_get_by_email holds_email rotate_map first_rows
        del: holds.simps cong: list.case_cong)
qed

subsection \<open>INSERT and the steps of create\<close>

lemma column_default_state:
  "column_default c s = (v, s') \<Longrightarrow> \<exists>k. s' = s\<lparr>uuid4_calls := k\<rparr>"
  by (auto simp: column_default_def split: option.splits default_arg.splits
      intro: exI [of _ "uuid4_calls s"])

lemma insert_value_state:
  "insert_value c a s = (v, s') \<Longrightarrow> \<exists>k. s' = s\<lparr>uuid4_calls := k\<rparr>"
  by (auto simp: insert_value_def split: option.splits if_splits dest: column_default_state
      intro: exI [of _ "uuid4_calls s"])

lemma insert_row_state:
  "insert_row cs a s = (row, s') \<Longrightarrow> \<exists>k. s' = s\<lparr>uuid4_calls := k\<rparr>"
proof (induction cs arbitrary: s row s')
  case Nil
  then show ?case by (auto intro: exI [of _ "uuid4_calls s"])
next
  case (Cons c cs)
  from Cons.prems obtain v s1 row1 where
    v: "insert_value c a s = (v, s1)" and r: "insert_row cs a s1 = (row1, s')"
    by (auto split: prod.splits)
  from insert_value_state [OF v] obtain k where "s1 = s\<lparr>uuid4_calls := k\<rparr>" ..
  moreover from Cons.IH [OF r] obtain k' where "s' = s1\<lparr>uuid4_calls := k'\<rparr>" ..
  ultimately show ?case by auto
qed

lemma insert_row_Cons_fst:
  "fst (insert_row (c # cs) a s)
   = (fst (insert_row cs a (snd (insert_value c a s))))(name c \<mapsto> fst (insert_value c a s))"
  by (simp split: prod.splits)

lemma insert_row_dom:
  "fst (insert_row cs a s) k = None \<longleftrightarrow> k \<notin> name ` set cs"
  by (induction cs arbitrary: s) (auto simp: insert_row_Cons_fst simp del: insert_row.simps(2))

lemma insert_row_given:
  "distinct (map name cs) \<Longrightarrow> c \<in> set cs \<Longrightarrow> a (name c) = Some v \<Longrightarrow> v \<noteq> VNone \<Longrightarrow>
   fst (insert_row cs a s) (name c) = Some v"
  by (induction cs arbitrary: s)
     (auto simp: insert_row_Cons_fst insert_value_def simp del: insert_row.simps(2))

lemma insert_row_default:
  "distinct (map name cs) \<Longrightarrow> c \<in> set cs \<Longrightarrow> a (name c) = None \<or> a (name c) = Some VNone \<Longrightarrow>
   col_default c = Some (Scalar b) \<Longrightarrow> fst (insert_row cs a s) (name c) = Some (VBool b)"
proof (induction cs arbitrary: s)
  case Nil
  then show ?case by simp
next
  case (Cons x cs)
  show ?case
  proof (cases "c = x")
    case True
    with Cons.prems show ?thesis
      by (auto simp: insert_row_Cons_fst insert_value_def column_default_def
          simp del: insert_row.simps(2))
  next
    case False
    with Cons.prems have c: "c \<in> set cs" and "name c \<noteq> name x"
      by (auto simp: image_iff)
    with Cons.IH [of "snd (insert_value x a s)"] Cons.prems show ?thesis
      by (simp add: insert_row_Cons_fst del: insert_row.simps(2))
  qed
qed

lemma init_kwargs_lookup:
  "init_kwargs c kvs a0 = Inr a \<Longrightarrow> distinct (map fst kvs) \<Longrightarrow>
   a k = (case map_of kvs k of Some v \<Rightarrow> Some v | None \<Rightarrow> a0 k)"
proof (induction kvs arbitrary: a0)
  case Nil
  then show ?case by simp
next
  case (Cons kv kvs)
  obtain k' v where kv: "kv = (k', v)" by (cases kv)
  from Cons.prems kv have *: "init_kwargs c kvs (a0(k' \<mapsto> v)) = Inr a"
    and d: "distinct (map fst kvs)" and nk: "k' \<notin> fst ` set kvs"
    by (auto split: if_splits)
  from nk have n: "map_of kvs k' = None"
    by (simp add: map_of_eq_None_iff)
  from Cons.IH [OF * d] have "a k = (case map_of kvs k of Some v \<Rightarrow> Some v | None \<Rightarrow> (a0(k' \<mapsto> v)) k)" .
  with n kv show ?case
    by (cases "k = k'") (auto split: option.splits)
qed

lemma db_expire: "db (expire r s) = db s"
  by (simp add: expire_def reload_def split: option.splits)

lemma db_fold_expire: "db (fold expire rs s) = db s"
  by (induction rs arbitrary: s) (simp_all add: db_expire)

lemma db_rollback: "db (rollback s0 s1) = db s0"
  by (simp add: rollback_def db_fold_expire)

lemma find_append_last:
  "P x \<Longrightarrow> \<exists>y. find P (xs @ [x]) = Some y"
  by (induction xs) auto

lemma create_steps:
  assumes ok: "adapter_ok self" and idle: "idle s" and nf: "\<not> failed s"
    and a: "init_kwargs (user_table self) d Map.empty = Inr a"
  shows "\<exists>row s1 sB k row'.
           row = fst (insert_row (columns User) a s1) \<and>
           find (\<lambda>r. r ''id'' = row ''id'') (db s User @ [row]) = Some row' \<and>
           db sB = db s \<and>
           create self d s =
             (if \<not> typed ((db s)(User := db s User @ [row])) then (Inl DataError, sB)
              else if \<not> constraints_ok ((db s)(User := db s User @ [row]))
                   then (Inl IntegrityError, sB)
              else (Inr (length (instances s)),
                    s\<lparr>db := (db s)(User := db s User @ [row]),
                      instances := instances s @
                        [\<lparr>cls = User, attrs = load_columns User row' (a(''id'' := row ''id'')),
                          key = row ''id''\<rparr>],
                      uuid4_calls := k,
                      calls := calls s @ [Add, Commit, Refresh]\<rparr>))"
proof -
  from ok have u: "mapped_table (user_table self) = User"
    by (simp add: adapter_ok_def)
  from idle have i: "added s = []" "deleted s = []"
    by (simp_all add: idle_def)
  define n where "n = length (instances s)"
  define s1 where "s1 = s\<lparr>instances := instances s @ [\<lparr>cls = User, attrs = a, key = None\<rparr>],
                          added := [n], calls := calls s @ [Add, Commit]\<rparr>"
  obtain row sr where ir: "insert_row (columns User) a s1 = (row, sr)"
    by (cases "insert_row (columns User) a s1")
  from insert_row_state [OF ir] obtain k where sr: "sr = s1\<lparr>uuid4_calls := k\<rparr>" ..
  define s2 where "s2 = sr\<lparr>db := (db s)(User := db s User @ [row]),
       instances := instances s @ [\<lparr>cls = User, attrs = a(''id'' := row ''id''), key = row ''id''\<rparr>]\<rparr>"
  have idn: "row ''id'' \<noteq> None"
    using insert_row_dom [of "columns User" a s1 "''id''"] ir
    by (simp add: SQLAlchemyBaseUserTableUUID_def Column_def)
  obtain row' where f: "find (\<lambda>r. r ''id'' = row ''id'') (db s User @ [row]) = Some row'"
    using find_append_last [of "\<lambda>r. r ''id'' = row ''id''" row "db s User"] by auto
  have cm: "session_commit (session_add n (s\<lparr>instances := instances s @ [\<lparr>cls = User, attrs = a, key = None\<rparr>]\<rparr>))
     = (if \<not> typed (db s2) then (Inl DataError, rollback s1 s2)
        else if \<not> constraints_ok (db s2) then (Inl IntegrityError, rollback s1 s2)
        else (Inr (), s2\<lparr>added := [], deleted := []\<rparr>))"
    using i ir nf
    by (simp add: session_commit_def session_add_def flush_def unit_of_work_def flush_add_def
          nth_append n_def s1_def [symmetric])
       (simp add: s2_def sr s1_def n_def i)
  have cr: "create self d s = (case session_commit (session_add n (s\<lparr>instances := instances s @ [\<lparr>cls = User, attrs = a, key = None\<rparr>]\<rparr>)) of
               (Inl e, s2) \<Rightarrow> (Inl e, s2)
             | (Inr u, s2) \<Rightarrow>
                 (case session_refresh n s2 of
                    (Inl e, s3) \<Rightarrow> (Inl e, s3)
                  | (Inr u', s3) \<Rightarrow> (Inr n, s3)))"
    unfolding n_def using a u by (simp add: create_def declarative_constructor_def)
  have ro: "row_of (s2\<lparr>added := [], deleted := [], calls := calls s2 @ [Refresh]\<rparr>) n
            = Some row'"
    using idn f by (simp add: row_of_def s2_def n_def sr s1_def)
  have nf2: "\<not> failed s2"
    using nf by (simp add: s2_def sr s1_def)
  have rf: "session_refresh n (s2\<lparr>added := [], deleted := []\<rparr>)
            = (Inr (), reload n row' (s2\<lparr>added := [], deleted := [], calls := calls s2 @ [Refresh]\<rparr>))"
    using ro nf2 by (simp add: session_refresh_def Let_def)
  have fin: "reload n row' (s2\<lparr>added := [], deleted := [], calls := calls s2 @ [Refresh]\<rparr>)
     = s\<lparr>db := (db s)(User := db s User @ [row]),
         instances := instances s @
           [\<lparr>cls = User, attrs = load_columns User row' (a(''id'' := row ''id'')), key = row ''id''\<rparr>],
         uuid4_calls := k,
         calls := calls s @ [Add, Commit, Refresh]\<rparr>"
    using i by (simp add: reload_def s2_def sr s1_def n_def)
  have d2: "db s2 = (db s)(User := db s User @ [row])"
    by (simp add: s2_def)
  have "create self d s =
             (if \<not> typed ((db s)(User := db s User @ [row])) then (Inl DataError, rollback s1 s2)
              else if \<not> constraints_ok ((db s)(User := db s User @ [row]))
                   then (Inl IntegrityError, rollback s1 s2)
              else (Inr n,
                    s\<lparr>db := (db s)(User := db s User @ [row]),
                      instances := instances s @
                        [\<lparr>cls = User, attrs = load_columns User row' (a(''id'' := row ''id'')),
                          key = row ''id''\<rparr>],
                      uuid4_calls := k,
                      calls := calls s @ [Add, Commit, Refresh]\<rparr>))"
    unfolding cr cm d2 using rf fin by simp
  moreover have "db (rollback s1 s2) = db s"
    by (simp add: db_rollback s1_def)
  moreover have "row = fst (insert_row (columns User) a s1)"
    using ir by simp
  ultimately show ?thesis
    using f unfolding n_def by blast
qed

lemma create_failed:
  assumes "failed s"
  shows "\<exists>e s'. create self d s = (Inl e, s') \<and> db s' = db s"
proof (cases "init_kwargs (user_table self) d Map.empty")
  case (Inl e)
  then show ?thesis
    by (simp add: create_def declarative_constructor_def)
next
  case (Inr a)
  with assms show ?thesis
    by (simp add: create_def declarative_constructor_def session_commit_def session_add_def)
qed

subsection \<open>Rows that meet the schema\<close>

lemma columns_User:
  "columns User =
     [\<lparr>name = ''id'', col_type = GUID, primary_key = True, unique = False, index = False,
        nullable = True, col_default = Some Uuid4, foreign_key = None\<rparr>,
      \<lparr>name = ''email'', col_type = String 320, primary_key = False, unique = True, index = True,
        nullable = False, col_default = None, foreign_key = None\<rparr>,
      \<lparr>name = ''hashed_password'', col_type = String 1024, primary_key = False, unique = False,
        index = False, nullable = False, col_default = None, foreign_key = None\<rparr>,
      \<lparr>name = ''is_active'', col_type = Boolean, primary_key = False, unique = False,
        index = False, nullable = False, col_default = Some (Scalar True), foreign_key = None\<rparr>,
      \<lparr>name = ''is_superuser'', col_type = Boolean, primary_key = False, unique = False,
        index = False, nullable = False, col_default = Some (Scalar False), foreign_key = None\<rparr>,
      \<lparr>name = ''is_verified'', col_type = Boolean, primary_key = False, unique = False,
        index = False, nullable = False, col_default = Some (Scalar False), foreign_key = None\<rparr>]"
  by (simp add: SQLAlchemyBaseUserTableUUID_def SQLAlchemyBaseUserTable_def Column_def)

lemma columns_OAuthAccount:
  "columns OAuthAccount =
     [\<lparr>name = ''id'', col_type = GUID, primary_key = True, unique = False, index = False,
        nullable = True, col_default = Some Uuid4, foreign_key = None\<rparr>,
      \<lparr>name = ''user_id'', col_type = GUID, primary_key = False, unique = False, index = False,
        nullable = False, col_default = None,
        foreign_key = Some (ForeignKey User ''id'' ''cascade'')\<rparr>,
      \<lparr>name = ''oauth_name'', col_type = String 100, primary_key = False, unique = False,
        index = True, nullable = False, col_default = None, foreign_key = None\<rparr>,
      \<lparr>name = ''access_token'', col_type = String 1024, primary_key = False, unique = False,
        index = False, nullable = False, col_default = None, foreign_key = None\<rparr>,
      \<lparr>name = ''expires_at'', col_type = Integer, primary_key = False, unique = False,
        index = False, nullable = True, col_default = None, foreign_key = None\<rparr>,
      \<lparr>name = ''refresh_token'', col_type = String 1024, primary_key = False, unique = False,
        index = False, nullable = True, col_default = None, foreign_key = None\<rparr>,
      \<lparr>name = ''account_id'', col_type = String 320, primary_key = False, unique = False,
        index = True, nullable = False, col_default = None, foreign_key = None\<rparr>,
      \<lparr>name = ''account_email'', col_type = String 320, primary_key = False, unique = False,
        index = False, nullable = False, col_default = None, foreign_key = None\<rparr>]"
  by (simp add: SQLAlchemyBaseOAuthAccountTableUUID_def SQLAlchemyBaseOAuthAccountTable_def
      Column_def)

lemma fits_GUID: "fits GUID v \<longleftrightarrow> (\<exists>i. v = VId i)"
  by (cases v) auto

lemma user_row_id:
  assumes "row_ok d" and "r \<in> set (d User)"
  shows "\<exists>i. r ''id'' = Some (VId i)"
proof -
  from assms have t: "typed_ok (hd (columns User)) (r ''id'')"
    by (simp add: row_ok_def typed_def table_typed_def columns_User del: columns.simps)
  from assms have n: "r ''id'' \<noteq> Some VNone"
    by (simp add: row_ok_def constraints_ok_def not_null_ok_def not_null_def columns_User
        del: columns.simps)
  from t n show ?thesis
    by (auto simp: typed_ok_def columns_User fits_GUID split: option.splits val.splits
        simp del: columns.simps)
qed

lemma user_row_columns:
  assumes "row_ok d" and "r \<in> set (d User)" and "c \<in> set (column_names User)"
  shows "r c \<noteq> None"
  using assms
  by (auto simp: row_ok_def typed_def table_typed_def column_names_def typed_ok_def
      split: option.splits)

lemma distinct_filter_id:
  "\<forall>x \<in> set xs. P x \<Longrightarrow> filter P xs = xs"
  by (induction xs) auto

lemma user_ids_distinct:
  assumes "row_ok d"
  shows "distinct (map (\<lambda>r. r ''id'') (d User))"
proof -
  from assms have u: "distinct (filter (\<lambda>v. v \<noteq> Some VNone) (map (\<lambda>r. r ''id'') (d User)))"
    by (simp add: row_ok_def constraints_ok_def unique_ok_def is_unique_def columns_User
        del: columns.simps)
  from assms have "\<forall>r \<in> set (d User). r ''id'' \<noteq> Some VNone"
    by (simp add: row_ok_def constraints_ok_def not_null_ok_def not_null_def columns_User
        del: columns.simps)
  then have "filter (\<lambda>v. v \<noteq> Some VNone) (map (\<lambda>r. r ''id'') (d User)) = map (\<lambda>r. r ''id'') (d User)"
    by (intro distinct_filter_id) auto
  with u show ?thesis by simp
qed

lemma user_emails_distinct:
  assumes "row_ok d"
  shows "distinct (map (\<lambda>r. r ''email'') (d User))"
proof -
  from assms have u: "distinct (filter (\<lambda>v. v \<noteq> Some VNone) (map (\<lambda>r. r ''email'') (d User)))"
    by (simp add: row_ok_def constraints_ok_def unique_ok_def is_unique_def columns_User
        del: columns.simps)
  from assms have "\<forall>r \<in> set (d User). r ''email'' \<noteq> Some VNone"
    by (simp add: row_ok_def constraints_ok_def not_null_ok_def not_null_def columns_User
        del: columns.simps)
  then have "filter (\<lambda>v. v \<noteq> Some VNone) (map (\<lambda>r. r ''email'') (d User)) = map (\<lambda>r. r ''email'') (d User)"
    by (intro distinct_filter_id) auto
  with u show ?thesis by simp
qed

lemma find_SomeD:
  "find P xs = Some y \<Longrightarrow> y \<in> set xs \<and> P y"
  by (induction xs) (auto split: if_splits)

lemma find_distinct_last:
  assumes "distinct (map f (xs @ [x]))" and "find (\<lambda>r. f r = f x) (xs @ [x]) = Some y"
  shows "y = x"
proof -
  from find_SomeD [OF assms(2)] have "y \<in> set (xs @ [x])" and "f y = f x"
    by simp_all
  with assms(1) show ?thesis
    by (cases "y \<in> set xs") (auto simp: image_iff)
qed

lemma find_distinct_last_eq:
  assumes "distinct (map f (xs @ [x]))"
  shows "find (\<lambda>r. f r = f x) (xs @ [x]) = Some x"
proof -
  obtain y where y: "find (\<lambda>r. f r = f x) (xs @ [x]) = Some y"
    using find_append_last [of "\<lambda>r. f r = f x" x xs] by auto
  with find_distinct_last [OF assms y] show ?thesis by simp
qed

lemma create_Inr:
  assumes ok: "adapter_ok self" and idle: "idle s" and cr: "create self d s = (Inr u, s')"
  shows "\<exists>a row s1 i.
           init_kwargs (user_table self) d Map.empty = Inr a \<and>
           row = fst (insert_row (columns User) a s1) \<and>
           u = length (instances s) \<and>
           db s' = (db s)(User := db s User @ [row]) \<and>
           row_ok (db s') \<and>
           row ''id'' = Some (VId i) \<and>
           find (\<lambda>r. r ''id'' = Some (VId i)) (db s' User) = Some row \<and>
           instances s' = instances s @
             [\<lparr>cls = User, attrs = load_columns User row (a(''id'' := row ''id'')), key = Some (VId i)\<rparr>] \<and>
           idle s' \<and> \<not> failed s'"
proof -
  from cr obtain a where a: "init_kwargs (user_table self) d Map.empty = Inr a"
    by (auto simp: create_def declarative_constructor_def split: sum.splits)
  from create_failed [of s self d] cr have nf: "\<not> failed s"
    by auto
  from create_steps [OF ok idle nf a] obtain row s1 sB k row' where
    row: "row = fst (insert_row (columns User) a s1)"
    and f: "find (\<lambda>r. r ''id'' = row ''id'') (db s User @ [row]) = Some row'"
    and c: "create self d s =
             (if \<not> typed ((db s)(User := db s User @ [row])) then (Inl DataError, sB)
              else if \<not> constraints_ok ((db s)(User := db s User @ [row]))
                   then (Inl IntegrityError, sB)
              else (Inr (length (instances s)),
                    s\<lparr>db := (db s)(User := db s User @ [row]),
                      instances := instances s @
                        [\<lparr>cls = User, attrs = load_columns User row' (a(''id'' := row ''id'')),
                          key = row ''id''\<rparr>],
                      uuid4_calls := k,
                      calls := calls s @ [Add, Commit, Refresh]\<rparr>))"
    by blast
  from c cr have ty: "typed ((db s)(User := db s User @ [row]))"
    and co: "constraints_ok ((db s)(User := db s User @ [row]))"
    by (auto split: if_splits)
  with c cr have u: "u = length (instances s)"
    and s': "s' = s\<lparr>db := (db s)(User := db s User @ [row]),
                      instances := instances s @
                        [\<lparr>cls = User, attrs = load_columns User row' (a(''id'' := row ''id'')),
                          key = row ''id''\<rparr>],
                      uuid4_calls := k,
                      calls := calls s @ [Add, Commit, Refresh]\<rparr>"
    by auto
  have db: "db s' = (db s)(User := db s User @ [row])"
    by (simp add: s')
  with ty co have rok: "row_ok (db s')"
    by (simp add: row_ok_def)
  have "row \<in> set (db s' User)"
    by (simp add: db)
  from user_row_id [OF rok this] obtain i where i: "row ''id'' = Some (VId i)" ..
  from user_ids_distinct [OF rok] have dis: "distinct (map (\<lambda>r. r ''id'') (db s User @ [row]))"
    by (simp add: db)
  from find_distinct_last [OF dis f] have rr: "row' = row" .
  from find_distinct_last_eq [OF dis] i have
    fi: "find (\<lambda>r. r ''id'' = Some (VId i)) (db s' User) = Some row"
    by (simp add: db)
  have "idle s'"
    using idle by (simp add: s' idle_def)
  moreover have "\<not> failed s'"
    using nf by (simp add: s')
  moreover have "instances s' = instances s @
             [\<lparr>cls = User, attrs = load_columns User row (a(''id'' := row ''id'')), key = Some (VId i)\<rparr>]"
    by (simp add: s' rr i)
  ultimately show ?thesis
    using a row u db rok i fi by blast
qed

lemma create_get:
  assumes ok: "adapter_ok self" and idle: "idle s" and cr: "create self d s = (Inr u, s')"
  shows "\<exists>a row s1 i u' s''.
           init_kwargs (user_table self) d Map.empty = Inr a \<and>
           row = fst (insert_row (columns User) a s1) \<and>
           u < length (instances s') \<and>
           attrs (instances s' ! u) ''id'' = Some (VId i) \<and>
           (\<forall>c \<in> set (column_names User). attrs (instances s' ! u) c = row c) \<and>
           get self i s' = (Inr (Some u'), s'') \<and>
           (\<forall>c \<in> set (column_names User). attrs (instances s'' ! u') c = row c)"
proof -
  from create_Inr [OF assms] obtain a row s1 i where
    a: "init_kwargs (user_table self) d Map.empty = Inr a"
    and row: "row = fst (insert_row (columns User) a s1)"
    and u: "u = length (instances s)"
    and i: "row ''id'' = Some (VId i)"
    and f: "find (\<lambda>r. r ''id'' = Some (VId i)) (db s' User) = Some row"
    and ins: "instances s' = instances s @
             [\<lparr>cls = User, attrs = load_columns User row (a(''id'' := row ''id'')), key = Some (VId i)\<rparr>]"
    and rok: "row_ok (db s')" and idle': "idle s'" and nf': "\<not> failed s'"
    by blast
  have at: "attrs (instances s' ! u) = load_columns User row (a(''id'' := row ''id''))"
    by (simp add: ins u)
  then have cols: "\<forall>c \<in> set (column_names User). attrs (instances s' ! u) c = row c"
    by (simp add: load_columns_def)
  then have aid: "attrs (instances s' ! u) ''id'' = Some (VId i)"
    using i by (simp add: column_names_User)
  obtain u' s'' where l: "load_entity User row (s'\<lparr>calls := calls s' @ [Execute]\<rparr>) = (u', s'')"
    by (cases "load_entity User row (s'\<lparr>calls := calls s' @ [Execute]\<rparr>)")
  from get_eq [OF ok nf' idle' user_ids_distinct [OF rok], of i] f l have g: "get self i s' = (Inr (Some u'), s'')"
    by simp
  have "\<forall>c \<in> set (column_names User). attrs (instances s'' ! u') c = row c"
  proof
    fix c assume "c \<in> set (column_names User)"
    with load_entity_props(2) [OF l, of c] show "attrs (instances s'' ! u') c = row c"
      by simp
  qed
  moreover have "u < length (instances s')"
    by (simp add: ins u)
  ultimately show ?thesis
    using a row aid cols g by blast
qed

subsection \<open>Create, then look up\<close>

lemma init_kwargs_absent:
  "init_kwargs c kvs a0 = Inr a \<Longrightarrow> k \<notin> fst ` set kvs \<Longrightarrow> a k = a0 k"
proof (induction kvs arbitrary: a0)
  case Nil
  then show ?case by simp
next
  case (Cons kv kvs)
  obtain k' v where kv: "kv = (k', v)" by (cases kv)
  with Cons.prems have *: "init_kwargs c kvs (a0(k' \<mapsto> v)) = Inr a" and "k \<noteq> k'"
    and "k \<notin> fst ` set kvs"
    by (auto split: if_splits)
  with Cons.IH [OF *] show ?case by simp
qed

lemma distinct_names_User: "distinct (map name (columns User))"
  by (simp add: columns_User del: columns.simps)

lemma column_of_name:
  "k \<in> set (column_names t) \<Longrightarrow> \<exists>c \<in> set (columns t). name c = k"
  by (auto simp: column_names_def)

text \<open>
  Claim C1. When \<^verbatim>\<open>create\<close> accepts a field mapping, \<^verbatim>\<open>get\<close> with the identifier of the
  created entity returns an entity whose column attributes are those of the created
  entity, and they are the values of the mapping: every column the mapping gives a value
  other than \<^verbatim>\<open>None\<close> holds that value.
\<close>

theorem create_get_roundtrip:
  assumes "adapter_ok self" and "idle s" and "distinct (map fst create_dict)"
    and "create self create_dict s = (Inr u, s')"
  shows "\<exists>i u' s''.
           attrs (instances s' ! u) ''id'' = Some (VId i) \<and>
           get self i s' = (Inr (Some u'), s'') \<and>
           (\<forall>c \<in> set (column_names User).
              attrs (instances s'' ! u') c = attrs (instances s' ! u) c) \<and>
           (\<forall>(k, v) \<in> set create_dict.
              k \<in> set (column_names User) \<and> v \<noteq> VNone \<longrightarrow>
              attrs (instances s'' ! u') k = Some v)"
proof -
  from create_get [OF assms(1,2,4)] obtain a row s1 i u' s'' where
    a: "init_kwargs (user_table self) create_dict Map.empty = Inr a"
    and row: "row = fst (insert_row (columns User) a s1)"
    and aid: "attrs (instances s' ! u) ''id'' = Some (VId i)"
    and cols: "\<forall>c \<in> set (column_names User). attrs (instances s' ! u) c = row c"
    and g: "get self i s' = (Inr (Some u'), s'')"
    and cols': "\<forall>c \<in> set (column_names User). attrs (instances s'' ! u') c = row c"
    by blast
  have given: "attrs (instances s'' ! u') k = Some v"
    if kv: "(k, v) \<in> set create_dict" and k: "k \<in> set (column_names User)" and v: "v \<noteq> VNone"
    for k v
  proof -
    from kv assms(3) have "map_of create_dict k = Some v"
      by simp
    with init_kwargs_lookup [OF a assms(3), of k] have ak: "a k = Some v"
      by simp
    from column_of_name [OF k] obtain c where c: "c \<in> set (columns User)" and n: "name c = k"
      by blast
    from insert_row_given [OF distinct_names_User c, of a v s1] ak n v row
    have "row k = Some v"
      by simp
    with cols' k show ?thesis by simp
  qed
  from cols cols' have "\<forall>c \<in> set (column_names User).
              attrs (instances s'' ! u') c = attrs (instances s' ! u) c"
    by simp
  with aid g given show ?thesis
    by blast
qed

text \<open>
  Claim C9. When the mapping names none of the three flags, the created user has
  \<^verbatim>\<open>is_active = True\<close>, \<^verbatim>\<open>is_superuser = False\<close> and \<^verbatim>\<open>is_verified = False\<close>, and so has
  the user a lookup by its identifier returns. The witness is the scenario of the
  specification: created from an email and a password only, the user that
  \<^verbatim>\<open>get_by_email("U@TEST.COM")\<close> returns has these flags.
\<close>

theorem create_default_flags:
  assumes "adapter_ok self" and "idle s"
    and "create self create_dict s = (Inr u, s')"
    and "''is_active'' \<notin> fst ` set create_dict"
    and "''is_superuser'' \<notin> fst ` set create_dict"
    and "''is_verified'' \<notin> fst ` set create_dict"
  shows "attrs (instances s' ! u) ''is_active'' = Some (VBool True) \<and>
         attrs (instances s' ! u) ''is_superuser'' = Some (VBool False) \<and>
         attrs (instances s' ! u) ''is_verified'' = Some (VBool False) \<and>
         (\<exists>i u' s''.
            attrs (instances s' ! u) ''id'' = Some (VId i) \<and>
            get self i s' = (Inr (Some u'), s'') \<and>
            attrs (instances s'' ! u') ''is_active'' = Some (VBool True) \<and>
            attrs (instances s'' ! u') ''is_superuser'' = Some (VBool False) \<and>
            attrs (instances s'' ! u') ''is_verified'' = Some (VBool False))"
proof -
  from create_get [OF assms(1-3)] obtain a row s1 i u' s'' where
    a: "init_kwargs (user_table self) create_dict Map.empty = Inr a"
    and row: "row = fst (insert_row (columns User) a s1)"
    and aid: "attrs (instances s' ! u) ''id'' = Some (VId i)"
    and cols: "\<forall>c \<in> set (column_names User). attrs (instances s' ! u) c = row c"
    and g: "get self i s' = (Inr (Some u'), s'')"
    and cols': "\<forall>c \<in> set (column_names User). attrs (instances s'' ! u') c = row c"
    by blast
  from init_kwargs_absent [OF a assms(4)] have n1: "a ''is_active'' = None" by simp
  from init_kwargs_absent [OF a assms(5)] have n2: "a ''is_superuser'' = None" by simp
  from init_kwargs_absent [OF a assms(6)] have n3: "a ''is_verified'' = None" by simp
  have r1: "row ''is_active'' = Some (VBool True)"
    using insert_row_default [OF distinct_names_User, of "columns User ! 3" a True s1] n1 row
    by (simp add: columns_User del: columns.simps)
  have r2: "row ''is_superuser'' = Some (VBool False)"
    using insert_row_default [OF distinct_names_User, of "columns User ! 4" a False s1] n2 row
    by (simp add: columns_User del: columns.simps)
  have r3: "row ''is_verified'' = Some (VBool False)"
    using insert_row_default [OF distinct_names_User, of "columns User ! 5" a False s1] n3 row
    by (simp add: columns_User del: columns.simps)
  from cols r1 r2 r3 have f:
    "attrs (instances s' ! u) ''is_active'' = Some (VBool True)"
    "attrs (instances s' ! u) ''is_superuser'' = Some (VBool False)"
    "attrs (instances s' ! u) ''is_verified'' = Some (VBool False)"
    by (simp_all add: column_names_User)
  from cols' r1 r2 r3 have f':
    "attrs (instances s'' ! u') ''is_active'' = Some (VBool True)"
    "attrs (instances s'' ! u') ''is_superuser'' = Some (VBool False)"
    "attrs (instances s'' ! u') ''is_verified'' = Some (VBool False)"
    by (simp_all add: column_names_User)
  from f f' aid g show ?thesis
    by blast
qed

lemma adapter_ok_oauth_db: "adapter_ok oauth_db"
  by (simp add: adapter_ok_def oauth_db_def)

lemma idle_empty_store: "idle empty_store"
  by (simp add: idle_def empty_store_def init_def)

theorem create_get_roundtrip_witness:
  "adapter_ok oauth_db \<and> idle empty_store \<and> distinct (map fst upper_dict) \<and>
   fst (create oauth_db upper_dict empty_store) = Inr 0 \<and>
   attrs (instances one_user ! 0) ''id'' = Some (VId 0) \<and>
   fst (get oauth_db 0 one_user) = Inr (Some 0) \<and>
   map (attrs (instances (snd (get oauth_db 0 one_user)) ! 0)) (column_names User)
     = [Some (VId 0), Some (VStr ''A@B.com''), Some (VStr ''x''),
        Some (VBool True), Some (VBool False), Some (VBool False)] \<and>
   (\<exists>i u' s''. get oauth_db i one_user = (Inr (Some u'), s'') \<and>
        attrs (instances s'' ! u') ''email'' = Some (VStr ''A@B.com''))"
proof -
  have d: "distinct (map fst upper_dict)"
    by (simp add: upper_dict_def)
  have c: "create oauth_db upper_dict empty_store = (Inr 0, one_user)"
    unfolding one_user_def by (rule prod_eqI) (code_simp, simp)
  have v: "fst (create oauth_db upper_dict empty_store) = Inr 0 \<and>
   attrs (instances one_user ! 0) ''id'' = Some (VId 0) \<and>
   fst (get oauth_db 0 one_user) = Inr (Some 0) \<and>
   map (attrs (instances (snd (get oauth_db 0 one_user)) ! 0)) (column_names User)
     = [Some (VId 0), Some (VStr ''A@B.com''), Some (VStr ''x''),
        Some (VBool True), Some (VBool False), Some (VBool False)]"
    by code_simp
  from create_get_roundtrip [OF adapter_ok_oauth_db idle_empty_store d c]
  obtain i u' s'' where g: "get oauth_db i one_user = (Inr (Some u'), s'')"
    and m: "\<forall>(k, v) \<in> set upper_dict.
              k \<in> set (column_names User) \<and> v \<noteq> VNone \<longrightarrow>
              attrs (instances s'' ! u') k = Some v"
    by blast
  from m have "attrs (instances s'' ! u') ''email'' = Some (VStr ''A@B.com'')"
    by (simp add: upper_dict_def column_names_User)
  with g adapter_ok_oauth_db idle_empty_store d v show ?thesis
    by blast
qed

theorem create_default_flags_witness:
  "adapter_ok oauth_db \<and> idle empty_store \<and>
   fst (create oauth_db test_dict empty_store) = Inr 0 \<and>
   ''is_active'' \<notin> fst ` set test_dict \<and>
   ''is_superuser'' \<notin> fst ` set test_dict \<and>
   ''is_verified'' \<notin> fst ` set test_dict \<and>
   map (attrs (instances (snd (create oauth_db test_dict empty_store)) ! 0))
       [''is_active'', ''is_superuser'', ''is_verified'']
     = [Some (VBool True), Some (VBool False), Some (VBool False)] \<and>
   fst (get_by_email oauth_db ''U@TEST.COM'' (snd (create oauth_db test_dict empty_store)))
     = Inr (Some 0) \<and>
   map (attrs (instances (snd (get_by_email oauth_db ''U@TEST.COM''
                                 (snd (create oauth_db test_dict empty_store)))) ! 0))
       [''email'', ''is_active'', ''is_superuser'', ''is_verified'']
     = [Some (VStr ''u@test.com''), Some (VBool True), Some (VBool False), Some (VBool False)]"
proof -
  have c1: "fst (create oauth_db test_dict empty_store) = Inr 0"
    by code_simp
  then have c: "create oauth_db test_dict empty_store
           = (Inr 0, snd (create oauth_db test_dict empty_store))"
    by (simp add: prod_eq_iff)
  have k: "''is_active'' \<notin> fst ` set test_dict" "''is_superuser'' \<notin> fst ` set test_dict"
    "''is_verified'' \<notin> fst ` set test_dict"
    by (simp_all add: test_dict_def)
  have v: "fst (get_by_email oauth_db ''U@TEST.COM'' (snd (create oauth_db test_dict empty_store)))
     = Inr (Some 0) \<and>
   map (attrs (instances (snd (get_by_email oauth_db ''U@TEST.COM''
                                 (snd (create oauth_db test_dict empty_store)))) ! 0))
       [''email'', ''is_active'', ''is_superuser'', ''is_verified'']
     = [Some (VStr ''u@test.com''), Some (VBool True), Some (VBool False), Some (VBool False)]"
    by code_simp
  from create_default_flags [OF adapter_ok_oauth_db idle_empty_store c k]
  have "map (attrs (instances (snd (create oauth_db test_dict empty_store)) ! 0))
       [''is_active'', ''is_superuser'', ''is_verified'']
     = [Some (VBool True), Some (VBool False), Some (VBool False)]"
    by simp
  with adapter_ok_oauth_db idle_empty_store c1 k v show ?thesis
    by blast
qed

subsection \<open>Lookup by email\<close>

text \<open>
  Claim C2, as amended. In a session whose transaction has not failed and that has
  nothing to flush, \<^verbatim>\<open>get_by_email\<close> returns \<^verbatim>\<open>None\<close> exactly when no stored user has an
  email whose lower-casing (the store's \<^verbatim>\<open>LOWER\<close>) is that of the query; a user it returns
  is a stored user whose email matches in this way; and a stored user whose email matches
  is the one returned when no other stored user's email matches. As stated the claim
  fails: the store may hold two users whose emails differ only in case, and then only
  one of them is returned, whichever row the store returns first.
\<close>

theorem get_by_email_some_match:
  assumes "adapter_ok self" and "\<not> failed s" and "idle s"
  shows "\<exists>u s'. get_by_email self q s = (Inr u, s') \<and>
           (u = None \<longleftrightarrow> (\<forall>row \<in> set (db s User). \<not> email_matches (sql_lower s) q row)) \<and>
           (\<forall>n. u = Some n \<longrightarrow>
              (\<exists>row \<in> set (db s User).
                 email_matches (sql_lower s) q row \<and>
                 (\<forall>c \<in> set (column_names User). attrs (instances s' ! n) c = row c))) \<and>
           (\<forall>row \<in> set (db s User).
              email_matches (sql_lower s) q row \<and>
              (\<forall>row' \<in> set (db s User). email_matches (sql_lower s) q row' \<longrightarrow> row' = row) \<longrightarrow>
              (\<exists>n. u = Some n \<and>
                 (\<forall>c \<in> set (column_names User). attrs (instances s' ! n) c = row c)))"
proof (cases "rotate (row_order s (length (calls s)))
                (filter (email_matches (sql_lower s) q) (db s User))")
  case Nil
  then have "filter (email_matches (sql_lower s) q) (db s User) = []"
    by simp
  then have no: "\<forall>row \<in> set (db s User). \<not> email_matches (sql_lower s) q row"
    by (simp add: filter_empty_conv)
  from Nil get_by_email_eq [OF assms, of q]
  have "get_by_email self q s = (Inr None, s\<lparr>calls := calls s @ [Execute]\<rparr>)"
    by simp
  with no show ?thesis by auto
next
  case (Cons r rs)
  then have "r \<in> set (rotate (row_order s (length (calls s)))
                         (filter (email_matches (sql_lower s) q) (db s User)))"
    by simp
  then have r: "r \<in> set (db s User)" "email_matches (sql_lower s) q r"
    by simp_all
  obtain n s' where l: "load_entity User r (s\<lparr>calls := calls s @ [Execute]\<rparr>) = (n, s')"
    by (cases "load_entity User r (s\<lparr>calls := calls s @ [Execute]\<rparr>)")
  from Cons l get_by_email_eq [OF assms, of q]
  have g: "get_by_email self q s = (Inr (Some n), s')"
    by simp
  have cols: "\<forall>c \<in> set (column_names User). attrs (instances s' ! n) c = r c"
  proof
    fix c assume "c \<in> set (column_names User)"
    with load_entity_props(2) [OF l, of c] show "attrs (instances s' ! n) c = r c"
      by simp
  qed
  from r cols have only: "\<forall>row \<in> set (db s User).
              email_matches (sql_lower s) q row \<and>
              (\<forall>row' \<in> set (db s User). email_matches (sql_lower s) q row' \<longrightarrow> row' = row) \<longrightarrow>
              (\<forall>c \<in> set (column_names User). attrs (instances s' ! n) c = row c)"
  proof (intro ballI impI)
    fix row c
    assume "row \<in> set (db s User)"
      and h: "email_matches (sql_lower s) q row \<and>
              (\<forall>row' \<in> set (db s User). email_matches (sql_lower s) q row' \<longrightarrow> row' = row)"
      and c: "c \<in> set (column_names User)"
    from h r have "r = row" by simp
    with cols c show "attrs (instances s' ! n) c = row c" by simp
  qed
  from r cols have some: "\<exists>row \<in> set (db s User).
                 email_matches (sql_lower s) q row \<and>
                 (\<forall>c \<in> set (column_names User). attrs (instances s' ! n) c = row c)"
    by blast
  from r have ne: "\<not> (\<forall>row \<in> set (db s User). \<not> email_matches (sql_lower s) q row)"
    by blast
  show ?thesis
  proof (intro exI conjI)
    show "get_by_email self q s = (Inr (Some n), s')"
      by (rule g)
    show "(Some n = None) = (\<forall>row \<in> set (db s User). \<not> email_matches (sql_lower s) q row)"
      using ne by simp
    show "\<forall>m. Some n = Some m \<longrightarrow>
              (\<exists>row \<in> set (db s User).
                 email_matches (sql_lower s) q row \<and>
                 (\<forall>c \<in> set (column_names User). attrs (instances s' ! m) c = row c))"
    proof (intro allI impI)
      fix m assume "Some n = Some m"
      then have "m = n" by simp
      then show "\<exists>row \<in> set (db s User).
                 email_matches (sql_lower s) q row \<and>
                 (\<forall>c \<in> set (column_names User). attrs (instances s' ! m) c = row c)"
        using some by (simp only:)
    qed
    show "\<forall>row \<in> set (db s User).
              email_matches (sql_lower s) q row \<and>
              (\<forall>row' \<in> set (db s User). email_matches (sql_lower s) q row' \<longrightarrow> row' = row) \<longrightarrow>
              (\<exists>k. Some n = Some k \<and>
                 (\<forall>c \<in> set (column_names User). attrs (instances s' ! k) c = row c))"
    proof (intro ballI impI)
      fix row
      assume rw: "row \<in> set (db s User)"
        and h: "email_matches (sql_lower s) q row \<and>
              (\<forall>row' \<in> set (db s User). email_matches (sql_lower s) q row' \<longrightarrow> row' = row)"
      from bspec [OF only rw] h
      have "\<forall>c \<in> set (column_names User). attrs (instances s' ! n) c = row c"
        by (rule mp)
      then show "\<exists>k. Some n = Some k \<and>
                 (\<forall>c \<in> set (column_names User). attrs (instances s' ! k) c = row c)"
        by (intro exI [of _ n] conjI refl)
    qed
  qed
qed

theorem get_by_email_some_match_witness:
  "adapter_ok oauth_db \<and> \<not> failed one_user \<and> idle one_user \<and>
   projection [''id'', ''email''] (db one_user User) = [[Some (VId 0), Some (VStr ''A@B.com'')]] \<and>
   fst (get_by_email oauth_db ''a@b.com'' one_user) = Inr (Some 0) \<and>
   map (attrs (instances (snd (get_by_email oauth_db ''a@b.com'' one_user)) ! 0))
       [''id'', ''email''] = [Some (VId 0), Some (VStr ''A@B.com'')] \<and>
   fst (get_by_email oauth_db ''c@d.com'' one_user) = Inr None"
proof -
  have nf: "\<not> failed one_user" and idle: "idle one_user"
    by code_simp+
  have v1: "projection [''id'', ''email''] (db one_user User) = [[Some (VId 0), Some (VStr ''A@B.com'')]]"
    by code_simp
  have v2: "fst (get_by_email oauth_db ''a@b.com'' one_user) = Inr (Some 0)"
    by code_simp
  have v3: "map (attrs (instances (snd (get_by_email oauth_db ''a@b.com'' one_user)) ! 0))
       [''id'', ''email''] = [Some (VId 0), Some (VStr ''A@B.com'')]"
    by code_simp
  have m: "\<forall>row \<in> set (db one_user User). \<not> email_matches (sql_lower one_user) ''c@d.com'' row"
    by code_simp
  have e: "fst (get_by_email oauth_db ''c@d.com'' one_user) = Inr None"
    using get_by_email_some_match [OF adapter_ok_oauth_db nf idle, of "''c@d.com''"]
  proof (elim exE conjE)
    fix u s'
    assume g: "get_by_email oauth_db ''c@d.com'' one_user = (Inr u, s')"
      and n: "(u = None) = (\<forall>row \<in> set (db one_user User).
                               \<not> email_matches (sql_lower one_user) ''c@d.com'' row)"
    from n m have "u = None" by (rule iffD2)
    with g show ?thesis by simp
  qed
  from adapter_ok_oauth_db nf idle v1 v2 v3 e show ?thesis
    by (intro conjI)
qed

text \<open>The counterexample to claim C2 as stated: the emails of the two stored users both
  match the query \<^verbatim>\<open>a@b.com\<close>; the lookup returns the first user when the store returns
  its row first, the second user when the store returns that row first, and the other
  user is not returned.\<close>

theorem get_by_email_counterexample:
  "projection [''id'', ''email''] (db two_users User)
     = [[Some (VId 0), Some (VStr ''A@B.com'')], [Some (VId 1), Some (VStr ''a@b.com'')]] \<and>
   map (email_matches (sql_lower two_users) ''a@b.com'') (db two_users User) = [True, True] \<and>
   fst (get_by_email oauth_db ''a@b.com'' two_users) = Inr (Some 0) \<and>
   map (attrs (instances (snd (get_by_email oauth_db ''a@b.com'' two_users)) ! 0))
       [''id'', ''email''] = [Some (VId 0), Some (VStr ''A@B.com'')] \<and>
   fst (get_by_email oauth_db ''a@b.com'' (two_users\<lparr>row_order := (\<lambda>n. 1)\<rparr>)) = Inr (Some 1) \<and>
   map (attrs (instances (snd (get_by_email oauth_db ''a@b.com''
                                 (two_users\<lparr>row_order := (\<lambda>n. 1)\<rparr>))) ! 1))
       [''id'', ''email''] = [Some (VId 1), Some (VStr ''a@b.com'')]"
  by code_simp

subsection \<open>The schema holds in every reachable state\<close>

lemma db_load_entity: "db (snd (load_entity t r s)) = db s"
  using load_entity_props(3) [of t r s "fst (load_entity t r s)" "snd (load_entity t r s)"]
  by simp

lemma db_load_row: "db (snd (load_row row s)) = db s"
proof (induction row arbitrary: s)
  case Nil
  show ?case by simp
next
  case (Cons tr row)
  obtain t r where tr: "tr = (t, r)" by (cases tr)
  obtain n s1 where l: "load_entity t r s = (n, s1)"
    by (cases "load_entity t r s")
  from load_entity_props(3) [OF l] have "db s1 = db s" .
  with Cons [of s1] tr l show ?case
    by (cases "load_row row s1") simp
qed

lemma db_first: "db (snd (first results s)) = db s"
  using db_load_row [of "hd results" s]
  by (cases results; cases "load_row (hd results) s") simp_all

lemma db_session_refresh: "db (snd (session_refresh r s)) = db s"
  by (simp add: session_refresh_def reload_def Let_def split: option.splits)

lemma db_session_add: "db (session_add r s) = db s"
  by (simp add: session_add_def)

lemma db_session_delete: "db (snd (session_delete r s)) = db s"
  by (simp add: session_delete_def Let_def)

lemma db_setattr: "db (setattr r k v s) = db s"
  by (simp add: setattr_def)

lemma db_fold_setattr: "db (fold (\<lambda>(k, v). setattr r k v) kvs s) = db s"
  by (induction kvs arbitrary: s) (auto simp: db_setattr)

lemma db_declarative_constructor: "db (snd (declarative_constructor c kwargs s)) = db s"
  by (simp add: declarative_constructor_def split: sum.splits)

lemma db_oauth_accounts_append: "db (snd (oauth_accounts_append c u a s)) = db s"
  by (simp add: oauth_accounts_append_def)

lemma db_flush:
  "db (snd (flush s)) = db s \<or> row_ok (db (snd (flush s)))"
  by (auto simp: flush_def Let_def db_rollback row_ok_def split: prod.splits option.splits)

lemma db_session_commit:
  "db (snd (session_commit s)) = db s \<or> row_ok (db (snd (session_commit s)))"
proof (cases "failed s")
  case True
  then show ?thesis by (simp add: session_commit_def)
next
  case False
  with db_flush [of "s\<lparr>calls := calls s @ [Commit]\<rparr>"] show ?thesis
    by (auto simp: session_commit_def Let_def split: prod.splits option.splits)
qed

lemma row_ok_session_commit:
  "row_ok (db s) \<Longrightarrow> row_ok (db (snd (session_commit s)))"
  using db_session_commit [of s] by auto

lemma db_session_execute:
  "db (snd (session_execute stmt s)) = db s \<or> row_ok (db (snd (session_execute stmt s)))"
proof (cases "failed s \<or> (added s = [] \<and> deleted s = [])")
  case True
  then show ?thesis by (auto simp: session_execute_def Let_def)
next
  case False
  with db_flush [of "s\<lparr>calls := calls s @ [Execute]\<rparr>"] show ?thesis
    by (auto simp: session_execute_def Let_def split: prod.splits option.splits)
qed

lemma db_get_user:
  "db (snd (get_user statement s)) = db (snd (session_execute statement s))"
proof -
  obtain x s1 where e: "session_execute statement s = (x, s1)"
    by (cases "session_execute statement s")
  show ?thesis
  proof (cases x)
    case (Inl err)
    with e show ?thesis by (simp add: get_user_def)
  next
    case (Inr results)
    with e db_first [of results s1] show ?thesis
      by (auto simp: get_user_def split: prod.splits option.splits list.splits)
  qed
qed

lemma row_ok_get_user:
  "row_ok (db s) \<Longrightarrow> row_ok (db (snd (get_user statement s)))"
  using db_session_execute [of statement s] by (auto simp: db_get_user)

lemma row_ok_create: "row_ok (db s) \<Longrightarrow> row_ok (db (snd (create self d s)))"
proof -
  assume r: "row_ok (db s)"
  obtain x s0 where c: "declarative_constructor (user_table self) d s = (x, s0)"
    by (cases "declarative_constructor (user_table self) d s")
  with db_declarative_constructor [of "user_table self" d s] have d0: "db s0 = db s" by simp
  show ?thesis
  proof (cases x)
    case (Inl e)
    with c r d0 show ?thesis by (simp add: create_def)
  next
    case (Inr user)
    obtain y s2 where m: "session_commit (session_add user s0) = (y, s2)"
      by (cases "session_commit (session_add user s0)")
    from row_ok_session_commit [of "session_add user s0"] r d0 m
    have r2: "row_ok (db s2)"
      by (simp add: db_session_add)
    obtain z s3 where f: "session_refresh user s2 = (z, s3)"
      by (cases "session_refresh user s2")
    with db_session_refresh [of user s2] have "db s3 = db s2" by simp
    with r2 c Inr m f show ?thesis
      by (auto simp: create_def split: sum.splits)
  qed
qed

lemma row_ok_update: "row_ok (db s) \<Longrightarrow> row_ok (db (snd (update self user d s)))"
proof -
  assume r: "row_ok (db s)"
  define s1 where "s1 = session_add user (fold (\<lambda>(k, v). setattr user k v) d s)"
  have d1: "db s1 = db s"
    by (simp add: s1_def db_session_add db_fold_setattr)
  obtain y s2 where m: "session_commit s1 = (y, s2)"
    by (cases "session_commit s1")
  from row_ok_session_commit [of s1] r d1 m have r2: "row_ok (db s2)"
    by simp
  obtain z s3 where f: "session_refresh user s2 = (z, s3)"
    by (cases "session_refresh user s2")
  with db_session_refresh [of user s2] have "db s3 = db s2" by simp
  with r2 m f show ?thesis
    by (auto simp: update_def s1_def [symmetric] Let_def split: sum.splits)
qed

lemma row_ok_delete: "row_ok (db s) \<Longrightarrow> row_ok (db (snd (delete self user s)))"
proof -
  assume r: "row_ok (db s)"
  obtain x s1 where c: "session_delete user s = (x, s1)"
    by (cases "session_delete user s")
  with db_session_delete [of user s] have d1: "db s1 = db s" by simp
  from row_ok_session_commit [of s1] r d1 have "row_ok (db (snd (session_commit s1)))"
    by simp
  with c r d1 show ?thesis
    by (auto simp: delete_def split: sum.splits)
qed

lemma row_ok_update_oauth_account:
  "row_ok (db s) \<Longrightarrow> row_ok (db (snd (update_oauth_account self user acc d s)))"
proof -
  assume r: "row_ok (db s)"
  define s1 where "s1 = session_add acc (fold (\<lambda>(k, v). setattr acc k v) d s)"
  have d1: "db s1 = db s"
    by (simp add: s1_def db_session_add db_fold_setattr)
  obtain y s2 where m: "session_commit s1 = (y, s2)"
    by (cases "session_commit s1")
  from row_ok_session_commit [of s1] r d1 m have r2: "row_ok (db s2)"
    by simp
  obtain z s3 where f: "session_refresh user s2 = (z, s3)"
    by (cases "session_refresh user s2")
  with db_session_refresh [of user s2] have "db s3 = db s2" by simp
  with r r2 m f show ?thesis
    by (auto simp: update_oauth_account_def s1_def [symmetric] Let_def split: sum.splits option.splits)
qed

lemma row_ok_add_oauth_account:
  "row_ok (db s) \<Longrightarrow> row_ok (db (snd (add_oauth_account self user d s)))"
proof -
  assume r: "row_ok (db s)"
  show ?thesis
  proof (cases "oauth_account_table self")
    case None
    with r show ?thesis by (simp add: add_oauth_account_def)
  next
    case (Some ot)
    obtain x s0 where c: "declarative_constructor ot d s = (x, s0)"
      by (cases "declarative_constructor ot d s")
    with db_declarative_constructor [of ot d s] have d0: "db s0 = db s" by simp
    show ?thesis
    proof (cases x)
      case (Inl e)
      with Some c r d0 show ?thesis by (simp add: add_oauth_account_def)
    next
      case (Inr acc)
      obtain w s2 where ap: "oauth_accounts_append (user_table self) user acc (session_add acc s0) = (w, s2)"
        by (cases "oauth_accounts_append (user_table self) user acc (session_add acc s0)")
      with db_oauth_accounts_append [of "user_table self" user acc "session_add acc s0"]
      have d2: "db s2 = db s" by (simp add: db_session_add d0)
      obtain y s4 where m: "session_commit (session_add user s2) = (y, s4)"
        by (cases "session_commit (session_add user s2)")
      from row_ok_session_commit [of "session_add user s2"] r d2 m
      have r4: "row_ok (db s4)"
        by (simp add: db_session_add)
      obtain z s5 where f: "session_refresh user s4 = (z, s5)"
        by (cases "session_refresh user s4")
      with db_session_refresh [of user s4] have "db s5 = db s4" by simp
      with r r4 d2 Some c Inr ap m f show ?thesis
        by (auto simp: add_oauth_account_def Let_def split: sum.splits)
    qed
  qed
qed

lemma row_ok_init: "row_ok (db (init u ord lw))"
  by (simp add: init_def row_ok_def typed_def constraints_ok_def table_typed_def not_null_ok_def
      unique_ok_def references_ok_def split: option.splits foreign_key.splits)

lemma reachable_row_ok: "reachable self s \<Longrightarrow> row_ok (db s)"
proof (induction rule: reachable.induct)
  case (reach_init u ord lw)
  show ?case by (rule row_ok_init)
next
  case (reach_get s i)
  then show ?case by (simp add: get_def row_ok_get_user)
next
  case (reach_get_by_email s email)
  then show ?case by (simp add: get_by_email_def row_ok_get_user)
next
  case (reach_get_by_oauth_account s oauth account_id)
  then show ?case by (simp add: get_by_oauth_account_def row_ok_get_user split: option.splits)
next
  case (reach_create s create_dict)
  then show ?case by (simp add: row_ok_create)
next
  case (reach_update s user update_dict)
  then show ?case by (simp add: row_ok_update)
next
  case (reach_delete s user)
  then show ?case by (simp add: row_ok_delete)
next
  case (reach_add_oauth_account s user create_dict)
  then show ?case by (simp add: row_ok_add_oauth_account)
next
  case (reach_update_oauth_account s user oauth_account update_dict)
  then show ?case by (simp add: row_ok_update_oauth_account)
qed

subsection \<open>Uniqueness of email\<close>

lemma create_fails_unchanged:
  assumes ok: "adapter_ok self" and idle: "idle s" and nf: "\<not> failed s"
    and bad: "\<And>a row s1. init_kwargs (user_table self) d Map.empty = Inr a \<Longrightarrow>
                 row = fst (insert_row (columns User) a s1) \<Longrightarrow>
                 \<not> row_ok ((db s)(User := db s User @ [row]))"
  shows "\<exists>err s'. create self d s = (Inl err, s') \<and> db s' = db s"
proof (cases "init_kwargs (user_table self) d Map.empty")
  case (Inl e)
  then have "create self d s = (Inl e, s)"
    by (simp add: create_def declarative_constructor_def)
  then show ?thesis by simp
next
  case (Inr a)
  from create_steps [OF ok idle nf Inr] obtain row s1 sB k row' where
    row: "row = fst (insert_row (columns User) a s1)"
    and sB: "db sB = db s"
    and c: "create self d s =
             (if \<not> typed ((db s)(User := db s User @ [row])) then (Inl DataError, sB)
              else if \<not> constraints_ok ((db s)(User := db s User @ [row]))
                   then (Inl IntegrityError, sB)
              else (Inr (length (instances s)),
                    s\<lparr>db := (db s)(User := db s User @ [row]),
                      instances := instances s @
                        [\<lparr>cls = User, attrs = load_columns User row' (a(''id'' := row ''id'')),
                          key = row ''id''\<rparr>],
                      uuid4_calls := k,
                      calls := calls s @ [Add, Commit, Refresh]\<rparr>))"
    by blast
  from bad [OF Inr row] have "\<not> typed ((db s)(User := db s User @ [row])) \<or>
      \<not> constraints_ok ((db s)(User := db s User @ [row]))"
    by (simp add: row_ok_def)
  then show ?thesis
  proof
    assume "\<not> typed ((db s)(User := db s User @ [row]))"
    with c have "create self d s = (Inl DataError, sB)" by simp
    with sB show ?thesis by simp
  next
    assume n: "\<not> constraints_ok ((db s)(User := db s User @ [row]))"
    show ?thesis
    proof (cases "typed ((db s)(User := db s User @ [row]))")
      case True
      with n c have "create self d s = (Inl IntegrityError, sB)" by simp
      with sB show ?thesis by simp
    next
      case False
      with c have "create self d s = (Inl DataError, sB)" by simp
      with sB show ?thesis by simp
    qed
  qed
qed

text \<open>
  Claim C8, as amended. In every state the adapter reaches, two distinct stored users
  have different emails, compared as the strings they are (the column is declared
  \<^verbatim>\<open>unique=True\<close>); and \<^verbatim>\<open>create\<close> with an email a stored user already has fails and
  leaves the rows as they were. As stated the claim fails: the uniqueness is not
  case-insensitive.
\<close>

theorem emails_unique_exact:
  assumes "reachable self s"
  shows "distinct (map (\<lambda>r. r ''email'') (db s User)) \<and>
         (adapter_ok self \<and> idle s \<and> distinct (map fst create_dict) \<and>
          (''email'', VStr e) \<in> set create_dict \<and>
          Some (VStr e) \<in> set (map (\<lambda>r. r ''email'') (db s User)) \<longrightarrow>
          (\<exists>err s'. create self create_dict s = (Inl err, s') \<and> db s' = db s))"
proof (intro conjI impI)
  from reachable_row_ok [OF assms] show "distinct (map (\<lambda>r. r ''email'') (db s User))"
    by (rule user_emails_distinct)
next
  assume h: "adapter_ok self \<and> idle s \<and> distinct (map fst create_dict) \<and>
          (''email'', VStr e) \<in> set create_dict \<and>
          Some (VStr e) \<in> set (map (\<lambda>r. r ''email'') (db s User))"
  then have ok: "adapter_ok self" and idle: "idle s" and dk: "distinct (map fst create_dict)"
    and em: "(''email'', VStr e) \<in> set create_dict"
    and ex: "Some (VStr e) \<in> set (map (\<lambda>r. r ''email'') (db s User))"
    by simp_all
  show "\<exists>err s'. create self create_dict s = (Inl err, s') \<and> db s' = db s"
  proof (cases "failed s")
    case True
    then show ?thesis by (rule create_failed)
  next
    case False
    show ?thesis
    proof (rule create_fails_unchanged [OF ok idle False])
    fix a row and s1 :: "'a state"
    assume a: "init_kwargs (user_table self) create_dict Map.empty = Inr a"
      and row: "row = fst (insert_row (columns User) a s1)"
    from em dk have "map_of create_dict ''email'' = Some (VStr e)"
      by simp
    with init_kwargs_lookup [OF a dk, of "''email''"] have ae: "a ''email'' = Some (VStr e)"
      by simp
    have "row ''email'' = Some (VStr e)"
      using insert_row_given [OF distinct_names_User, of "columns User ! 1" a "VStr e" s1] ae row
      by (simp add: columns_User del: columns.simps)
    with ex have "\<not> distinct (map (\<lambda>r. r ''email'') (db s User @ [row]))"
      by auto
    then show "\<not> row_ok ((db s)(User := db s User @ [row]))"
      using user_emails_distinct [of "(db s)(User := db s User @ [row])"] by auto
    qed
  qed
qed

lemma reachable_one_user: "reachable oauth_db one_user"
  unfolding one_user_def empty_store_def by (intro reach_create reach_init)

lemma reachable_two_users: "reachable oauth_db two_users"
  unfolding two_users_def by (intro reach_create reachable_one_user)

theorem emails_unique_exact_witness:
  "reachable oauth_db one_user \<and> adapter_ok oauth_db \<and> idle one_user \<and>
   distinct (map fst upper_dict) \<and> (''email'', VStr ''A@B.com'') \<in> set upper_dict \<and>
   Some (VStr ''A@B.com'') \<in> set (map (\<lambda>r. r ''email'') (db one_user User)) \<and>
   distinct (map (\<lambda>r. r ''email'') (db one_user User)) \<and>
   (\<exists>err s'. create oauth_db upper_dict one_user = (Inl err, s') \<and> db s' = db one_user) \<and>
   fst (create oauth_db upper_dict one_user) = Inl IntegrityError"
proof -
  have i: "idle one_user"
    by code_simp
  have d: "distinct (map fst upper_dict)" and m: "(''email'', VStr ''A@B.com'') \<in> set upper_dict"
    by (simp_all add: upper_dict_def)
  have x: "Some (VStr ''A@B.com'') \<in> set (map (\<lambda>r. r ''email'') (db one_user User))"
    by code_simp
  have f: "fst (create oauth_db upper_dict one_user) = Inl IntegrityError"
    by code_simp
  from emails_unique_exact [OF reachable_one_user, of upper_dict "''A@B.com''"]
  have u: "distinct (map (\<lambda>r. r ''email'') (db one_user User))"
    and c: "adapter_ok oauth_db \<and> idle one_user \<and> distinct (map fst upper_dict) \<and>
          (''email'', VStr ''A@B.com'') \<in> set upper_dict \<and>
          Some (VStr ''A@B.com'') \<in> set (map (\<lambda>r. r ''email'') (db one_user User)) \<longrightarrow>
          (\<exists>err s'. create oauth_db upper_dict one_user = (Inl err, s') \<and> db s' = db one_user)"
    by (rule conjunct1, rule conjunct2)
  from c adapter_ok_oauth_db i d m x
  have "\<exists>err s'. create oauth_db upper_dict one_user = (Inl err, s') \<and> db s' = db one_user"
    by (elim impE) (intro conjI)
  with reachable_one_user adapter_ok_oauth_db i d m x u f show ?thesis
    by (intro conjI)
qed

text \<open>The counterexample to claim C8 as stated: after \<^verbatim>\<open>A@B.com\<close>, \<^verbatim>\<open>create\<close> accepts
  \<^verbatim>\<open>a@b.com\<close>, and the store holds two users whose emails are equal once lower-cased.\<close>

theorem emails_unique_counterexample:
  "reachable oauth_db two_users \<and>
   fst (create oauth_db lower_dict one_user) = Inr 1 \<and>
   projection [''id'', ''email''] (db two_users User)
     = [[Some (VId 0), Some (VStr ''A@B.com'')], [Some (VId 1), Some (VStr ''a@b.com'')]] \<and>
   lower ''A@B.com'' = lower ''a@b.com''"
proof -
  have "fst (create oauth_db lower_dict one_user) = Inr 1"
    by code_simp
  moreover have "projection [''id'', ''email''] (db two_users User)
     = [[Some (VId 0), Some (VStr ''A@B.com'')], [Some (VId 1), Some (VStr ''a@b.com'')]]"
    by code_simp
  moreover have "lower ''A@B.com'' = lower ''a@b.com''"
    by code_simp
  ultimately show ?thesis
    using reachable_two_users by (intro conjI)
qed

subsection \<open>UPDATE and the steps of update\<close>

lemma persistent_key:
  assumes "persistent s r"
  shows "r < length (instances s) \<and> key (instances s ! r) \<noteq> None \<and>
         key (instances s ! r) = attrs (instances s ! r) ''id''"
proof -
  from assms obtain row where ro: "row_of s r = Some row"
    and la: "list_all (\<lambda>c. row c \<noteq> None \<and> attrs (instances s ! r) c = row c)
               (column_names (cls (instances s ! r)))"
    by (auto simp: persistent_def split: option.splits)
  from ro have len: "r < length (instances s)" and kn: "key (instances s ! r) \<noteq> None"
    and f: "find (\<lambda>row. row ''id'' = key (instances s ! r)) (db s (cls (instances s ! r))) = Some row"
    by (auto simp: row_of_def split: if_splits)
  from find_SomeD [OF f] have "row ''id'' = key (instances s ! r)"
    by simp
  moreover from la have "attrs (instances s ! r) ''id'' = row ''id''"
    by (cases "cls (instances s ! r)")
       (simp_all add: column_names_User column_names_OAuthAccount)
  ultimately show ?thesis
    using len kn by simp
qed


lemma fold_setattr:
  "user < length (instances s) \<Longrightarrow>
   fold (\<lambda>(k, v). setattr user k v) d s =
     s\<lparr>instances := (instances s)
         [user := (instances s ! user)
            \<lparr>attrs := fold (\<lambda>(k, v) a. a(k \<mapsto> v)) d (attrs (instances s ! user))\<rparr>]\<rparr>"
proof (induction d arbitrary: s)
  case Nil
  then show ?case by simp
next
  case (Cons kv d)
  obtain k v where kv: "kv = (k, v)" by (cases kv)
  from Cons.prems have "user < length (instances (setattr user k v s))"
    by (simp add: setattr_def)
  from Cons.IH [OF this] Cons.prems kv show ?case
    by (simp add: setattr_def)
qed

lemma fold_upd_lookup:
  "distinct (map fst d) \<Longrightarrow>
   fold (\<lambda>(k, v) a. a(k \<mapsto> v)) d a0 k = (case map_of d k of Some v \<Rightarrow> Some v | None \<Rightarrow> a0 k)"
proof (induction d arbitrary: a0)
  case Nil
  then show ?case by simp
next
  case (Cons kv d)
  obtain k' v where kv: "kv = (k', v)" by (cases kv)
  from Cons.prems kv have d: "distinct (map fst d)" and nk: "k' \<notin> fst ` set d"
    by auto
  from nk have n: "map_of d k' = None"
    by (simp add: map_of_eq_None_iff)
  from Cons.IH [OF d, of "a0(k' \<mapsto> v)"] n kv show ?case
    by (cases "k = k'") (auto split: option.splits)
qed

lemma fold_upd_keeps:
  "a0 k \<noteq> None \<Longrightarrow> fold (\<lambda>(k, v) a. a(k \<mapsto> v)) d a0 k \<noteq> None"
  by (induction d arbitrary: a0) auto

lemma failed_setattr: "failed (setattr r k v s) = failed s"
  by (simp add: setattr_def)

lemma failed_fold_setattr: "failed (fold (\<lambda>(k, v). setattr r k v) kvs s) = failed s"
  by (induction kvs arbitrary: s) (simp_all add: failed_setattr case_prod_beta)

lemma update_failed:
  assumes "failed s"
  shows "\<exists>e s'. update self user d s = (Inl e, s')"
  using assms
  by (simp add: update_def Let_def session_commit_def session_add_def failed_fold_setattr)

lemma update_steps:
  assumes idle: "idle s" and nf: "\<not> failed s" and len: "user < length (instances s)"
    and c: "cls (instances s ! user) = User"
    and k: "key (instances s ! user) = Some k"
    and ex: "list_ex (\<lambda>row. row ''id'' = Some k) (db s User)"
    and a: "a = fold (\<lambda>(k, v) a. a(k \<mapsto> v)) d (attrs (instances s ! user))"
    and aid: "a ''id'' \<noteq> None"
    and d2: "d2 = (db s)(User := map (\<lambda>row. if row ''id'' = Some k then update_row User a row
                                              else row) (db s User))"
  shows "\<exists>sB sC. db sB = db s \<and>
           update self user d s =
             (if \<not> typed d2 then (Inl DataError, sB)
              else if \<not> constraints_ok d2 then (Inl IntegrityError, sB)
              else case find (\<lambda>row. row ''id'' = a ''id'') (d2 User) of
                     None \<Rightarrow> (Inl InvalidRequestError, sC)
                   | Some row' \<Rightarrow>
                       (Inr user,
                        s\<lparr>db := d2,
                          instances := (instances s)
                            [user := \<lparr>cls = User, attrs = load_columns User row' a, key = a ''id''\<rparr>],
                          calls := calls s @ [Add, Commit, Refresh]\<rparr>))"
proof -
  from idle have i: "added s = []" "deleted s = []"
    by (simp_all add: idle_def)
  define e where "e = (instances s ! user)\<lparr>attrs := a\<rparr>"
  have e: "cls e = User" "key e = Some k" "attrs e = a"
    using c k by (simp_all add: e_def)
  define s1 where "s1 = s\<lparr>instances := (instances s)[user := e],
                          added := [user], calls := calls s @ [Add, Commit]\<rparr>"
  have sa: "session_add user (fold (\<lambda>(k, v). setattr user k v) d s)
            = s\<lparr>instances := (instances s)[user := e], added := [user], calls := calls s @ [Add]\<rparr>"
    using i by (simp add: fold_setattr [OF len] session_add_def e_def a)
  define s2 where "s2 = s1\<lparr>db := d2,
       instances := (instances s)[user := \<lparr>cls = User, attrs = a, key = a ''id''\<rparr>]\<rparr>"
  obtain v where v: "a ''id'' = Some v"
    using aid by auto
  have ee: "e\<lparr>key := kk\<rparr> = \<lparr>cls = User, attrs = a, key = kk\<rparr>" for kk
    using c unfolding e_def by (cases "instances s ! user") simp
  have uw: "unit_of_work (instances s1) (added s1) = [user]"
    using len e by (simp add: unit_of_work_def s1_def)
  have fa: "flush_adds (unit_of_work (instances s1) (added s1)) s1 = (None, s2)"
    unfolding uw using len e ex v
    by (simp add: s1_def s2_def flush_add_def d2 Let_def ee cong: if_cong)
  have nf1: "\<not> failed s1" and nf2: "\<not> failed s2"
    using nf by (simp_all add: s1_def s2_def)
  have cm: "session_commit (session_add user (fold (\<lambda>(k, v). setattr user k v) d s))
     = (if \<not> typed d2 then (Inl DataError, rollback s1 s2)
        else if \<not> constraints_ok d2 then (Inl IntegrityError, rollback s1 s2)
        else (Inr (), s2\<lparr>added := [], deleted := []\<rparr>))"
    unfolding sa using fa i nf1
    by (simp add: session_commit_def flush_def s1_def [symmetric])
       (simp add: s1_def s2_def i)
  have up: "update self user d s =
     (case session_commit (session_add user (fold (\<lambda>(k, v). setattr user k v) d s)) of
           (Inl e, s2) \<Rightarrow> (Inl e, s2)
         | (Inr u, s2) \<Rightarrow>
             (case session_refresh user s2 of
                (Inl e, s3) \<Rightarrow> (Inl e, s3)
              | (Inr u', s3) \<Rightarrow> (Inr user, s3)))"
    by (simp add: update_def Let_def)
  have ro: "row_of (s2\<lparr>added := [], deleted := [], calls := calls s2 @ [Refresh]\<rparr>) user
            = find (\<lambda>row. row ''id'' = a ''id'') (d2 User)"
    using len v by (simp add: row_of_def s2_def s1_def)
  have rf: "session_refresh user (s2\<lparr>added := [], deleted := []\<rparr>)
     = (case find (\<lambda>row. row ''id'' = a ''id'') (d2 User) of
          None \<Rightarrow> (Inl InvalidRequestError, s2\<lparr>added := [], deleted := [], calls := calls s2 @ [Refresh]\<rparr>)
        | Some row' \<Rightarrow>
            (Inr (), reload user row' (s2\<lparr>added := [], deleted := [], calls := calls s2 @ [Refresh]\<rparr>)))"
    using nf2 by (simp add: session_refresh_def Let_def ro)
  have rl: "reload user row' (s2\<lparr>added := [], deleted := [], calls := calls s2 @ [Refresh]\<rparr>)
     = s\<lparr>db := d2,
         instances := (instances s)
           [user := \<lparr>cls = User, attrs = load_columns User row' a, key = a ''id''\<rparr>],
         calls := calls s @ [Add, Commit, Refresh]\<rparr>" for row'
    using len i by (simp add: reload_def s2_def s1_def)
  have "update self user d s =
             (if \<not> typed d2 then (Inl DataError, rollback s1 s2)
              else if \<not> constraints_ok d2 then (Inl IntegrityError, rollback s1 s2)
              else case find (\<lambda>row. row ''id'' = a ''id'') (d2 User) of
                     None \<Rightarrow> (Inl InvalidRequestError,
                               s2\<lparr>added := [], deleted := [], calls := calls s2 @ [Refresh]\<rparr>)
                   | Some row' \<Rightarrow>
                       (Inr user,
                        s\<lparr>db := d2,
                          instances := (instances s)
                            [user := \<lparr>cls = User, attrs = load_columns User row' a, key = a ''id''\<rparr>],
                          calls := calls s @ [Add, Commit, Refresh]\<rparr>))"
    unfolding up cm by (simp add: rf rl split: option.splits)
  moreover have "db (rollback s1 s2) = db s"
    by (simp add: db_rollback s1_def)
  ultimately show ?thesis
    by blast
qed

lemma distinct_map_eq:
  "distinct (map f xs) \<Longrightarrow> x \<in> set xs \<Longrightarrow> y \<in> set xs \<Longrightarrow> f x = f y \<Longrightarrow> x = y"
  by (auto simp: distinct_map dest: inj_onD)

lemma persistent_row:
  assumes "persistent s r"
  shows "\<exists>row. row \<in> set (db s (cls (instances s ! r))) \<and>
               row ''id'' = key (instances s ! r) \<and>
               (\<forall>c \<in> set (column_names (cls (instances s ! r))).
                  row c \<noteq> None \<and> attrs (instances s ! r) c = row c)"
proof -
  from assms obtain row where ro: "row_of s r = Some row"
    and la: "list_all (\<lambda>c. row c \<noteq> None \<and> attrs (instances s ! r) c = row c)
               (column_names (cls (instances s ! r)))"
    by (auto simp: persistent_def split: option.splits)
  from ro have
    f: "find (\<lambda>row. row ''id'' = key (instances s ! r)) (db s (cls (instances s ! r))) = Some row"
    by (auto simp: row_of_def split: if_splits)
  from find_SomeD [OF f] la show ?thesis
    by (auto simp: list_all_iff)
qed

text \<open>
  Claim C4. For a stored user, when \<^verbatim>\<open>update\<close> succeeds it returns the same entity; every
  attribute the mapping names holds the value the mapping gives, every other attribute
  holds the value it had before the call; and the entity is again a stored one, so the
  row of the user holds the same values.
\<close>

theorem update_partial:
  assumes "idle s" and "persistent s user" and "cls (instances s ! user) = User"
    and "distinct (map fst update_dict)"
    and "update self user update_dict s = (Inr u, s')"
  shows "u = user \<and>
         (\<forall>k. attrs (instances s' ! user) k =
                (case map_of update_dict k of
                   Some v \<Rightarrow> Some v
                 | None \<Rightarrow> attrs (instances s ! user) k)) \<and>
         persistent s' user"
proof -
  from persistent_key [OF assms(2)] have len: "user < length (instances s)"
    and kn: "key (instances s ! user) \<noteq> None"
    by blast+
  from kn obtain k where k: "key (instances s ! user) = Some k"
    by (cases "key (instances s ! user)") auto
  from persistent_row [OF assms(2)] assms(3) k obtain row0 where
    r0: "row0 \<in> set (db s User)" and r0k: "row0 ''id'' = Some k"
    and r0c: "\<forall>c \<in> set (column_names User). row0 c \<noteq> None \<and> attrs (instances s ! user) c = row0 c"
    by auto
  define a where "a = fold (\<lambda>(k, v) a. a(k \<mapsto> v)) update_dict (attrs (instances s ! user))"
  define upd where "upd = (\<lambda>row :: 'a row. if row ''id'' = Some k then update_row User a row else row)"
  define d2 where "d2 = (db s)(User := map upd (db s User))"
  have ac: "a c \<noteq> None" if "c \<in> set (column_names User)" for c
    using r0c that unfolding a_def by (intro fold_upd_keeps) auto
  then have aid: "a ''id'' \<noteq> None"
    by (simp add: column_names_User)
  from r0 r0k have ex: "list_ex (\<lambda>row. row ''id'' = Some k) (db s User)"
    by (auto simp: list_ex_iff)
  from update_failed [of s self user update_dict] assms(5) have nf: "\<not> failed s"
    by auto
  from update_steps [OF assms(1) nf len assms(3) k ex a_def aid, of d2 self]
  obtain sB sC where
    st: "update self user update_dict s =
             (if \<not> typed d2 then (Inl DataError, sB)
              else if \<not> constraints_ok d2 then (Inl IntegrityError, sB)
              else case find (\<lambda>row. row ''id'' = a ''id'') (d2 User) of
                     None \<Rightarrow> (Inl InvalidRequestError, sC)
                   | Some row' \<Rightarrow>
                       (Inr user,
                        s\<lparr>db := d2,
                          instances := (instances s)
                            [user := \<lparr>cls = User, attrs = load_columns User row' a, key = a ''id''\<rparr>],
                          calls := calls s @ [Add, Commit, Refresh]\<rparr>))"
    unfolding d2_def upd_def by blast
  from st assms(5) have ty: "typed d2" and co: "constraints_ok d2"
    by (auto split: if_splits)
  with st assms(5) obtain row' where
    f: "find (\<lambda>row. row ''id'' = a ''id'') (d2 User) = Some row'"
    and u: "u = user"
    and s': "s' = s\<lparr>db := d2,
                    instances := (instances s)
                      [user := \<lparr>cls = User, attrs = load_columns User row' a, key = a ''id''\<rparr>],
                    calls := calls s @ [Add, Commit, Refresh]\<rparr>"
    by (auto split: option.splits)
  from ty co have "row_ok d2"
    by (simp add: row_ok_def)
  from user_ids_distinct [OF this] have dis: "distinct (map (\<lambda>r. r ''id'') (d2 User))" .
  from find_SomeD [OF f] have r'in: "row' \<in> set (d2 User)" and r'id: "row' ''id'' = a ''id''"
    by simp_all
  have u0: "upd row0 = update_row User a row0"
    using r0k by (simp add: upd_def)
  have u0in: "upd row0 \<in> set (d2 User)"
    using r0 by (simp add: d2_def)
  have u0id: "upd row0 ''id'' = a ''id''"
    using aid by (simp add: u0 update_row_def column_names_User)
  from distinct_map_eq [OF dis r'in u0in] r'id u0id have rr: "row' = update_row User a row0"
    by (simp add: u0)
  have lc: "load_columns User row' a = a"
  proof
    fix c show "load_columns User row' a c = a c"
      using ac [of c] by (simp add: load_columns_def rr update_row_def)
  qed
  have at: "attrs (instances s' ! user) = a"
    using len by (simp add: s' lc)
  have look: "\<forall>k. attrs (instances s' ! user) k =
                (case map_of update_dict k of
                   Some v \<Rightarrow> Some v
                 | None \<Rightarrow> attrs (instances s ! user) k)"
    unfolding at a_def using fold_upd_lookup [OF assms(4)] by simp
  have ro: "row_of s' user = Some row'"
    using len aid f by (simp add: row_of_def s')
  have "list_all (\<lambda>c. row' c \<noteq> None \<and> attrs (instances s' ! user) c = row' c) (column_names User)"
    unfolding list_all_iff at
  proof
    fix c assume c: "c \<in> set (column_names User)"
    with ac [OF c] show "row' c \<noteq> None \<and> a c = row' c"
      by (simp add: rr update_row_def)
  qed
  moreover have "cls (instances s' ! user) = User"
    using len by (simp add: s')
  ultimately have "persistent s' user"
    using ro by (simp add: persistent_def)
  with u look show ?thesis
    by simp
qed

theorem update_partial_witness:
  "idle one_user \<and> persistent one_user 0 \<and> cls (instances one_user ! 0) = User \<and>
   distinct (map fst flags_dict) \<and>
   fst (update oauth_db 0 flags_dict one_user) = Inr 0 \<and>
   map (attrs (instances one_user ! 0)) (column_names User)
     = [Some (VId 0), Some (VStr ''A@B.com''), Some (VStr ''x''),
        Some (VBool True), Some (VBool False), Some (VBool False)] \<and>
   map (attrs (instances (snd (update oauth_db 0 flags_dict one_user)) ! 0)) (column_names User)
     = [Some (VId 0), Some (VStr ''A@B.com''), Some (VStr ''x''),
        Some (VBool False), Some (VBool False), Some (VBool True)] \<and>
   persistent (snd (update oauth_db 0 flags_dict one_user)) 0"
proof -
  have i: "idle one_user" by code_simp
  have p: "persistent one_user 0" by code_simp
  have c: "cls (instances one_user ! 0) = User" by code_simp
  have d: "distinct (map fst flags_dict)" by (simp add: flags_dict_def)
  have f: "fst (update oauth_db 0 flags_dict one_user) = Inr 0" by code_simp
  then have e: "update oauth_db 0 flags_dict one_user
                = (Inr 0, snd (update oauth_db 0 flags_dict one_user))"
    by (simp add: prod_eq_iff)
  have b: "map (attrs (instances one_user ! 0)) (column_names User)
     = [Some (VId 0), Some (VStr ''A@B.com''), Some (VStr ''x''),
        Some (VBool True), Some (VBool False), Some (VBool False)]" by code_simp
  from update_partial [OF i p c d e]
  have l: "\<forall>k. attrs (instances (snd (update oauth_db 0 flags_dict one_user)) ! 0) k =
                (case map_of flags_dict k of
                   Some v \<Rightarrow> Some v
                 | None \<Rightarrow> attrs (instances one_user ! 0) k)"
    and q: "persistent (snd (update oauth_db 0 flags_dict one_user)) 0"
    by simp_all
  from b have b': "attrs (instances one_user ! 0) ''id'' = Some (VId 0)"
    "attrs (instances one_user ! 0) ''email'' = Some (VStr ''A@B.com'')"
    "attrs (instances one_user ! 0) ''hashed_password'' = Some (VStr ''x'')"
    "attrs (instances one_user ! 0) ''is_superuser'' = Some (VBool False)"
    by (simp_all add: column_names_User)
  have a: "map (attrs (instances (snd (update oauth_db 0 flags_dict one_user)) ! 0)) (column_names User)
     = [Some (VId 0), Some (VStr ''A@B.com''), Some (VStr ''x''),
        Some (VBool False), Some (VBool False), Some (VBool True)]"
    using l [rule_format, of "''id''"] l [rule_format, of "''email''"]
      l [rule_format, of "''hashed_password''"] l [rule_format, of "''is_active''"]
      l [rule_format, of "''is_superuser''"] l [rule_format, of "''is_verified''"] b'
    by (simp add: column_names_User flags_dict_def)
  from i p c d f b a q show ?thesis
    by (intro conjI)
qed

subsection \<open>Delete\<close>

text \<open>
  Claim C5 fails on the code: for a stored user with a linked account, \<^verbatim>\<open>delete\<close> raises
  \<^verbatim>\<open>IntegrityError\<close>. The unit of work sets the \<^verbatim>\<open>user_id\<close> of the account to NULL before it
  deletes the user, the column is declared \<^verbatim>\<open>nullable=False\<close>, and the transaction is
  rolled back: the row of the user is still stored, the session is left in the failed
  state, so \<^verbatim>\<open>get\<close> with the identifier raises \<^verbatim>\<open>PendingRollbackError\<close>, and in a session
  that is usable again \<^verbatim>\<open>get\<close> returns the user. The second user has no account: its
  \<^verbatim>\<open>delete\<close> succeeds and \<^verbatim>\<open>get\<close> then returns \<^verbatim>\<open>None\<close>.
\<close>

theorem delete_linked_user_then_get:
  "projection [''id'', ''email''] (db one_account User)
     = [[Some (VId 0), Some (VStr ''A@B.com'')], [Some (VId 1), Some (VStr ''a@b.com'')]] \<and>
   projection [''user_id'', ''oauth_name'', ''account_id''] (db one_account OAuthAccount)
     = [[Some (VId 0), Some (VStr ''google''), Some (VStr ''42'')]] \<and>
   persistent one_account 0 \<and>
   fst (delete oauth_db 0 one_account) = Inl IntegrityError \<and>
   failed (snd (delete oauth_db 0 one_account)) \<and>
   projection [''id'', ''email''] (db (snd (delete oauth_db 0 one_account)) User)
     = [[Some (VId 0), Some (VStr ''A@B.com'')], [Some (VId 1), Some (VStr ''a@b.com'')]] \<and>
   fst (get oauth_db 0 (snd (delete oauth_db 0 one_account))) = Inl PendingRollbackError \<and>
   fst (get oauth_db 0 ((snd (delete oauth_db 0 one_account))\<lparr>failed := False\<rparr>))
     = Inr (Some 0) \<and>
   fst (delete oauth_db 1 one_account) = Inr () \<and>
   fst (get oauth_db 1 (snd (delete oauth_db 1 one_account))) = Inr None"
  by code_simp

text \<open>
  Claim C6 fails on the code: for a user with a linked account, \<^verbatim>\<open>delete\<close> raises
  \<^verbatim>\<open>IntegrityError\<close> and removes no row. The foreign key is declared
  \<^verbatim>\<open>ondelete="cascade"\<close>, but the unit of work first sets the \<^verbatim>\<open>user_id\<close> of the account to
  NULL, which the column, declared \<^verbatim>\<open>nullable=False\<close>, refuses; the cascade of the store is
  never reached. The account row is still stored and still refers to the user; the
  session is left in the failed state, so \<^verbatim>\<open>get_by_oauth_account\<close> with the provider and
  identifier of the account raises \<^verbatim>\<open>PendingRollbackError\<close>, and in a session that is
  usable again it returns the user.
\<close>

theorem delete_linked_user_no_cascade:
  "projection [''user_id'', ''oauth_name'', ''account_id''] (db one_account OAuthAccount)
     = [[Some (VId 0), Some (VStr ''google''), Some (VStr ''42'')]] \<and>
   fst (get_by_oauth_account oauth_db ''google'' ''42'' one_account) = Inr (Some 0) \<and>
   fst (delete oauth_db 0 one_account) = Inl IntegrityError \<and>
   calls (snd (delete oauth_db 0 one_account)) = calls one_account @ [Delete, Commit] \<and>
   projection [''user_id'', ''oauth_name'', ''account_id'']
       (db (snd (delete oauth_db 0 one_account)) OAuthAccount)
     = [[Some (VId 0), Some (VStr ''google''), Some (VStr ''42'')]] \<and>
   fst (get_by_oauth_account oauth_db ''google'' ''42'' (snd (delete oauth_db 0 one_account)))
     = Inl PendingRollbackError \<and>
   fst (get_by_oauth_account oauth_db ''google'' ''42''
          ((snd (delete oauth_db 0 one_account))\<lparr>failed := False\<rparr>))
     = Inr (Some 0)"
  by code_simp

end
